theory Spec2Isabelle
  imports Complex_Main "HOL-Library.Word" "HOL-Library.Stream"
begin

section \<open>The Y2K camera effect: data model\<close>

text \<open>
  The effect pipeline (\<^verbatim>\<open>applyY2KCameraEffect\<close> and the stage functions it calls) is
  embedded function by function. JavaScript numbers are modelled as reals: rounding to
  binary floating point, \<^verbatim>\<open>NaN\<close> and the infinities are outside the model. A
  \<^verbatim>\<open>Uint8Array\<close> is a list of 8-bit words, a \<^verbatim>\<open>Float32Array\<close> a list of reals. A
  write beyond the end of a typed array is dropped, as \<open>xs[i := v]\<close> does; a read beyond
  the end gives \<^verbatim>\<open>undefined\<close> in the source, so every statement about a value that is
  read assumes the index to be inside the buffer.
\<close>

type_synonym byte = "8 word"

text \<open>An \<^verbatim>\<open>SkImage\<close>: its dimensions and its RGBA\_8888 unpremultiplied bytes.\<close>

record image =
  width :: nat
  height :: nat
  pixels :: "byte list"

text \<open>An \<^verbatim>\<open>SkSurface\<close> with the content of its canvas.\<close>

record surface =
  surfaceWidth :: nat
  surfaceHeight :: nat
  canvas :: "byte list"

datatype imageFilter = MakeBlur real real

record paint =
  paintFilter :: "imageFilter option"
  paintColor :: "(nat \<times> nat \<times> nat \<times> real) option"

record font =
  fontSize :: real

text \<open>The interface \<^verbatim>\<open>Y2KOptions\<close>: every field is optional.\<close>

record y2kOptions =
  intensity :: "real option"
  addDateStamp :: "bool option"
  dateStampText :: "string option"
  outputQuality :: "int option"

record bloomOptions =
  bloomIntensity :: real
  highlightThreshold :: real
  bloomStrength :: real
  bloomRadius :: real
  shadowCrushStrength :: real
  shadowCrushRadius :: real

text \<open>The object returned by \<^verbatim>\<open>imageToPixels\<close>.\<close>

record pixelBuffer =
  bufData :: "real list"
  bufWidth :: nat
  bufHeight :: nat

text \<open>The three \<^verbatim>\<open>throw new Error\<close> statements of the module.\<close>

datatype error =
  ReadPixelsFailed
  | MakeImageFailed
  | SurfaceFailed int int

text \<open>
  The Skia library is not part of the module: what it computes is a parameter of the
  model. A call that may return \<^verbatim>\<open>null\<close> is a predicate or an option; a drawing call
  returns the new content of the canvas.
\<close>

record skia =
  Surface_Make :: "nat \<Rightarrow> nat \<Rightarrow> byte list option"
  readPixelsOk :: "image \<Rightarrow> bool"
  MakeImageOk :: "nat \<Rightarrow> nat \<Rightarrow> byte list \<Rightarrow> bool"
  drawImageRect :: "surface \<Rightarrow> image \<Rightarrow> (real \<times> real \<times> real \<times> real)
    \<Rightarrow> (real \<times> real \<times> real \<times> real) \<Rightarrow> paint \<Rightarrow> byte list"
  drawImage :: "surface \<Rightarrow> image \<Rightarrow> real \<Rightarrow> real \<Rightarrow> paint option \<Rightarrow> byte list"
  drawText :: "surface \<Rightarrow> string \<Rightarrow> real \<Rightarrow> real \<Rightarrow> paint \<Rightarrow> font \<Rightarrow> byte list"
  measureTextWidth :: "font \<Rightarrow> string \<Rightarrow> real"
  ImageFormat_JPEG :: "int option"
  encodeToBytes :: "image \<Rightarrow> int \<Rightarrow> int \<Rightarrow> byte list option"
  MakeImageFromEncoded :: "byte list \<Rightarrow> image option"

definition bindE :: "'e + 'a \<Rightarrow> ('a \<Rightarrow> 'e + 'b) \<Rightarrow> 'e + 'b" where
  "bindE m f = (case m of Inl e \<Rightarrow> Inl e | Inr a \<Rightarrow> f a)"

section \<open>Pixel buffer helpers\<close>

definition imageToPixels :: "skia \<Rightarrow> image \<Rightarrow> error + pixelBuffer" where
  "imageToPixels sk img =
     (if \<not> readPixelsOk sk img then Inl ReadPixelsFailed
      else Inr \<lparr>bufData = map (\<lambda>b. real (unat b)) (pixels img),
                bufWidth = width img, bufHeight = height img\<rparr>)"

definition toUint8 :: "real \<Rightarrow> byte" where
  "toUint8 v = word_of_int (max 0 (min 255 (round v)))"

definition pixelsToImage :: "skia \<Rightarrow> real list \<Rightarrow> nat \<Rightarrow> nat \<Rightarrow> error + image" where
  "pixelsToImage sk dat w h =
     (let uint8 = map toUint8 dat
      in if \<not> MakeImageOk sk w h uint8 then Inl MakeImageFailed
         else Inr \<lparr>width = w, height = h, pixels = uint8\<rparr>)"

definition idx :: "nat \<Rightarrow> nat \<Rightarrow> nat \<Rightarrow> nat \<Rightarrow> nat" where
  "idx x y w c = (y * w + x) * 4 + c"

definition luminance :: "real list \<Rightarrow> nat \<Rightarrow> nat \<Rightarrow> nat \<Rightarrow> real" where
  "luminance dat x y w =
     (let base = (y * w + x) * 4
      in 0.299 * dat ! base + 0.587 * dat ! (base + 1) + 0.114 * dat ! (base + 2))"

definition clamp :: "'a::linorder \<Rightarrow> 'a \<Rightarrow> 'a \<Rightarrow> 'a" where
  "clamp val mn mx = (if val < mn then mn else if val > mx then mx else val)"

section \<open>Skia surface helpers\<close>

text \<open>
  \<^verbatim>\<open>Skia.Surface.Make\<close> gives no surface for a negative dimension; for the others the
  library decides. A snapshot of a surface has the dimensions of the surface.
\<close>

definition makeSurface :: "skia \<Rightarrow> int \<Rightarrow> int \<Rightarrow> error + surface" where
  "makeSurface sk w h =
     (if w < 0 \<or> h < 0 then Inl (SurfaceFailed w h)
      else case Surface_Make sk (nat w) (nat h) of
             None \<Rightarrow> Inl (SurfaceFailed w h)
           | Some c \<Rightarrow> Inr \<lparr>surfaceWidth = nat w, surfaceHeight = nat h, canvas = c\<rparr>)"

definition makeImageSnapshot :: "surface \<Rightarrow> image" where
  "makeImageSnapshot s =
     \<lparr>width = surfaceWidth s, height = surfaceHeight s, pixels = canvas s\<rparr>"

definition Skia_Paint :: paint where
  "Skia_Paint = \<lparr>paintFilter = None, paintColor = None\<rparr>"

definition drawImageToSurface :: "skia \<Rightarrow> image \<Rightarrow> int \<Rightarrow> int \<Rightarrow> paint option \<Rightarrow> error + image" where
  "drawImageToSurface sk img w h p =
     bindE (makeSurface sk w h) (\<lambda>s.
       let c = drawImageRect sk s img
                 (0, 0, real (width img), real (height img))
                 (0, 0, real_of_int w, real_of_int h)
                 (case p of Some q \<Rightarrow> q | None \<Rightarrow> Skia_Paint)
       in Inr (makeImageSnapshot (s\<lparr>canvas := c\<rparr>)))"

definition applyGaussianBlur :: "skia \<Rightarrow> image \<Rightarrow> real \<Rightarrow> error + image" where
  "applyGaussianBlur sk img sigma =
     (if sigma \<le> 0 then Inr img
      else bindE (makeSurface sk (int (width img)) (int (height img))) (\<lambda>s.
        let p = Skia_Paint\<lparr>paintFilter := Some (MakeBlur sigma sigma)\<rparr>;
            c = drawImage sk s img 0 0 (Some p)
        in Inr (makeImageSnapshot (s\<lparr>canvas := c\<rparr>))))"

section \<open>Random helpers\<close>

text \<open>
  \<^verbatim>\<open>Math.random\<close> is ambient state: the model passes the sequence of the values it is
  going to return, and every function that draws returns the rest of the sequence.
\<close>

definition Math_random :: "real stream \<Rightarrow> real \<times> real stream" where
  "Math_random rnd = (shd rnd, stl rnd)"

text \<open>\<^verbatim>\<open>while (u === 0) u = Math.random()\<close>: it may never end.\<close>

partial_function (option) drawNonzero :: "real \<Rightarrow> real stream \<Rightarrow> (real \<times> real stream) option" where
  "drawNonzero u rnd =
     (if u = 0 then (case Math_random rnd of (u', rnd') \<Rightarrow> drawNonzero u' rnd')
      else Some (u, rnd))"

definition randomNormal :: "real stream \<Rightarrow> (real \<times> real stream) option" where
  "randomNormal rnd =
     (case drawNonzero 0 rnd of None \<Rightarrow> None
      | Some (u, rnd1) \<Rightarrow>
          (case drawNonzero 0 rnd1 of None \<Rightarrow> None
           | Some (v, rnd2) \<Rightarrow> Some (sqrt (- 2.0 * ln u) * cos (2.0 * pi * v), rnd2)))"

definition pilRadiusToSigma :: "real \<Rightarrow> real" where
  "pilRadiusToSigma radius = radius * 0.425"

section \<open>Loops\<close>

text \<open>
  \<^verbatim>\<open>for (let y = 0; y < h; y++) for (let x = 0; x < w; x++)\<close> over a state, and the
  same loops where the body may not return.
\<close>

definition forPixels :: "nat \<Rightarrow> nat \<Rightarrow> (nat \<Rightarrow> nat \<Rightarrow> 's \<Rightarrow> 's) \<Rightarrow> 's \<Rightarrow> 's" where
  "forPixels w h body s = fold (\<lambda>y. fold (\<lambda>x. body x y) [0..<w]) [0..<h] s"

fun foldOpt :: "('a \<Rightarrow> 's \<Rightarrow> 's option) \<Rightarrow> 'a list \<Rightarrow> 's \<Rightarrow> 's option" where
  "foldOpt f [] s = Some s"
| "foldOpt f (x # xs) s = (case f x s of None \<Rightarrow> None | Some s' \<Rightarrow> foldOpt f xs s')"

section \<open>Effect functions\<close>

text \<open>Step 1: \<^verbatim>\<open>reduceResolution\<close>.\<close>

definition reduceResolution :: "skia \<Rightarrow> image \<Rightarrow> real \<Rightarrow> error + image" where
  "reduceResolution sk img inten =
     (let w = width img; h = height img;
          targetPixels = (2000000::nat);
          currentPixels = w * h
      in if currentPixels \<le> targetPixels then Inr img
         else let scale = sqrt (real targetPixels / real currentPixels);
                  blended = 1 - (1 - scale) * inten;
                  newW = round (real w * blended);
                  newH = round (real h * blended)
              in drawImageToSurface sk img newW newH None)"

text \<open>Step 2: \<^verbatim>\<open>applyCoolCast\<close>.\<close>

definition coolCastPixel :: "real \<Rightarrow> real \<Rightarrow> real \<Rightarrow> nat \<Rightarrow> nat \<Rightarrow> nat \<Rightarrow> real list \<Rightarrow> real list" where
  "coolCastPixel rMul gMul bMul w x y d =
     (let base = (y * w + x) * 4;
          d1 = d[base := clamp (d ! base * rMul) 0 255];
          d2 = d1[base + 1 := clamp (d1 ! (base + 1) * gMul) 0 255]
      in d2[base + 2 := clamp (d2 ! (base + 2) * bMul) 0 255])"

definition applyCoolCast :: "real list \<Rightarrow> nat \<Rightarrow> nat \<Rightarrow> real \<Rightarrow> real list" where
  "applyCoolCast dat w h inten =
     (let rMul = 1.0 - 0.06 * inten;
          gMul = 1.0 + 0.02 * inten;
          bMul = 1.0 + 0.08 * inten
      in forPixels w h (coolCastPixel rMul gMul bMul w) dat)"

text \<open>Step 3a: \<^verbatim>\<open>adjustSaturation\<close>.\<close>

definition saturationPixel :: "real \<Rightarrow> nat \<Rightarrow> nat \<Rightarrow> nat \<Rightarrow> real list \<Rightarrow> real list" where
  "saturationPixel factor w x y d =
     (let base = (y * w + x) * 4;
          r = d ! base; g = d ! (base + 1); b = d ! (base + 2);
          lum = 0.299 * r + 0.587 * g + 0.114 * b;
          d1 = d[base := clamp (lum + (r - lum) * factor) 0 255];
          d2 = d1[base + 1 := clamp (lum + (g - lum) * factor) 0 255]
      in d2[base + 2 := clamp (lum + (b - lum) * factor) 0 255])"

definition adjustSaturation :: "real list \<Rightarrow> nat \<Rightarrow> nat \<Rightarrow> real \<Rightarrow> real list" where
  "adjustSaturation dat w h factor = forPixels w h (saturationPixel factor w) dat"

text \<open>Step 3b: \<^verbatim>\<open>adjustVibrance\<close>. \<^verbatim>\<open>Math.pow\<close> is \<open>powr\<close>: its base is never negative
  for a buffer with values from 0 to 255.\<close>

definition vibrancePixel :: "real \<Rightarrow> nat \<Rightarrow> nat \<Rightarrow> nat \<Rightarrow> real list \<Rightarrow> real list" where
  "vibrancePixel vibranceFactor w x y d =
     (let base = (y * w + x) * 4;
          r = d ! base / 255; g = d ! (base + 1) / 255; b = d ! (base + 2) / 255;
          maxC = max r (max g b);
          minC = min r (min g b);
          sat = (if maxC = 0 then 0 else (maxC - minC) / maxC);
          curve = (1.0 - sat) powr 1.5;
          adjustment = (vibranceFactor - 1.0) * curve;
          lum = 0.299 * r + 0.587 * g + 0.114 * b;
          newFactor = 1.0 + adjustment;
          d1 = d[base := clamp ((lum + (r - lum) * newFactor) * 255) 0 255];
          d2 = d1[base + 1 := clamp ((lum + (g - lum) * newFactor) * 255) 0 255]
      in d2[base + 2 := clamp ((lum + (b - lum) * newFactor) * 255) 0 255])"

definition adjustVibrance :: "real list \<Rightarrow> nat \<Rightarrow> nat \<Rightarrow> real \<Rightarrow> real list" where
  "adjustVibrance dat w h vibranceFactor =
     (if vibranceFactor = 1.0 then dat
      else forPixels w h (vibrancePixel vibranceFactor w) dat)"

text \<open>Step 4: \<^verbatim>\<open>reduceDynamicRange\<close>.\<close>

definition dynamicRangeStep :: "real \<Rightarrow> nat \<Rightarrow> real list \<Rightarrow> real list" where
  "dynamicRangeStep inten i d =
     (let blackLift = 8 * inten;
          highlightCompress = 0.95 - 0.05 * inten;
          contrastReduction = 0.9 + 0.1 * (1 - inten);
          mid = 128
      in if i mod 4 = 3 then d
         else let v = d ! i;
                  v1 = v + blackLift;
                  v2 = v1 * highlightCompress;
                  v3 = (v2 - mid) * contrastReduction + mid
              in d[i := clamp v3 0 255])"

definition reduceDynamicRange :: "real list \<Rightarrow> nat \<Rightarrow> nat \<Rightarrow> real \<Rightarrow> real list" where
  "reduceDynamicRange dat w h inten = fold (dynamicRangeStep inten) [0..<w * h * 4] dat"

text \<open>Step 4b: \<^verbatim>\<open>reduceLocalContrast\<close>. The three loops, then the function.\<close>

definition luminanceChannel :: "real list \<Rightarrow> nat \<Rightarrow> nat \<Rightarrow> real list" where
  "luminanceChannel dat w h =
     forPixels w h (\<lambda>x y l. l[y * w + x := luminance dat x y w]) (replicate (w * h) 0)"

definition grayRGBA :: "real list \<Rightarrow> nat \<Rightarrow> real list" where
  "grayRGBA vals n =
     fold (\<lambda>i a. let v = vals ! i
                 in a[i * 4 := v, i * 4 + 1 := v, i * 4 + 2 := v, i * 4 + 3 := 255])
          [0..<n] (replicate (n * 4) 0)"

definition localContrastPixel ::
  "real list \<Rightarrow> real list \<Rightarrow> real \<Rightarrow> nat \<Rightarrow> nat \<Rightarrow> nat \<Rightarrow> real list \<Rightarrow> real list" where
  "localContrastPixel lumData blurred amount w x y d =
     (let lum = lumData ! (y * w + x);
          localMean = blurred ! ((y * w + x) * 4);
          lumReduced = localMean + (lum - localMean) * (1 - amount);
          ratio = (if lum \<noteq> 0 then clamp (lumReduced / lum) 0 2 else 1);
          base = (y * w + x) * 4;
          d1 = d[base := clamp (d ! base * ratio) 0 255];
          d2 = d1[base + 1 := clamp (d1 ! (base + 1) * ratio) 0 255]
      in d2[base + 2 := clamp (d2 ! (base + 2) * ratio) 0 255])"

definition reduceLocalContrastData ::
  "real list \<Rightarrow> real list \<Rightarrow> real list \<Rightarrow> nat \<Rightarrow> nat \<Rightarrow> real \<Rightarrow> real list" where
  "reduceLocalContrastData dat lumData blurred w h amount =
     forPixels w h (localContrastPixel lumData blurred amount w) dat"

definition reduceLocalContrast :: "skia \<Rightarrow> image \<Rightarrow> real \<Rightarrow> real \<Rightarrow> error + image" where
  "reduceLocalContrast sk img amount windowSize =
     bindE (imageToPixels sk img) (\<lambda>px.
       let dat = bufData px; w = bufWidth px; h = bufHeight px;
           lumData = luminanceChannel dat w h;
           lumRGBA = grayRGBA lumData (w * h)
       in bindE (pixelsToImage sk lumRGBA w h) (\<lambda>lumImage.
          bindE (applyGaussianBlur sk lumImage
                   (pilRadiusToSigma (real_of_int \<lfloor>windowSize / 2\<rfloor>))) (\<lambda>blurredLumImage.
          bindE (imageToPixels sk blurredLumImage) (\<lambda>blurredPixels.
            pixelsToImage sk
              (reduceLocalContrastData dat lumData (bufData blurredPixels) w h amount) w h))))"

text \<open>Step 5: \<^verbatim>\<open>applyBloomEffect\<close>. Its loops first, in the order of the source.\<close>

definition highlightMaskValue :: "real \<Rightarrow> real \<Rightarrow> real" where
  "highlightMaskValue thr lum =
     (let hm = (lum - thr) / (255 - thr);
          hm1 = clamp hm 0 1
      in hm1 powr 0.7)"

definition bloomMasks :: "real list \<Rightarrow> nat \<Rightarrow> nat \<Rightarrow> real \<Rightarrow> real list \<times> real list" where
  "bloomMasks dat w h thr =
     forPixels w h
       (\<lambda>x y (lumArray, highlightMask).
          let i = y * w + x;
              lum = luminance dat x y w
          in (lumArray[i := lum], highlightMask[i := highlightMaskValue thr lum]))
       (replicate (w * h) 0, replicate (w * h) 0)"

definition bloomLayerPixel :: "real list \<Rightarrow> real list \<Rightarrow> nat \<Rightarrow> nat \<Rightarrow> nat \<Rightarrow> real list \<Rightarrow> real list" where
  "bloomLayerPixel dat highlightMask w x y bp =
     (let i = y * w + x;
          base = i * 4;
          hm = highlightMask ! i
      in bp[base := dat ! base * hm, base + 1 := dat ! (base + 1) * hm,
            base + 2 := dat ! (base + 2) * hm, base + 3 := 255])"

definition bloomLayer :: "real list \<Rightarrow> real list \<Rightarrow> nat \<Rightarrow> nat \<Rightarrow> real list" where
  "bloomLayer dat highlightMask w h =
     forPixels w h (bloomLayerPixel dat highlightMask w) (replicate (w * h * 4) 0)"

definition combineBloom :: "real list \<Rightarrow> real list \<Rightarrow> real list \<Rightarrow> nat \<Rightarrow> nat \<Rightarrow> real list" where
  "combineBloom b1 b2 b3 w h =
     fold (\<lambda>i cb. cb[i := b1 ! i * 0.4 + b2 ! i * 0.35 + b3 ! i * 0.25])
          [0..<w * h * 4] (replicate (w * h * 4) 0)"

definition crushInfluenceMap :: "real list \<Rightarrow> real list \<Rightarrow> nat \<Rightarrow> nat \<Rightarrow> real list" where
  "crushInfluenceMap crush1 crush2 w h =
     fold (\<lambda>i ci. let c1 = crush1 ! (i * 4) / 255;
                      c2 = crush2 ! (i * 4) / 255
                  in ci[i := c1 * 0.6 + c2 * 0.4])
          [0..<w * h] (replicate (w * h) 0)"

definition highlightAmountOf :: "real list \<Rightarrow> nat \<Rightarrow> nat \<Rightarrow> real" where
  "highlightAmountOf highlightMask w h =
     (let highlightSum = fold (\<lambda>i s. s + highlightMask ! i) [0..<w * h] 0
      in highlightSum / real (w * h))"

definition shadowCrushFactorOf :: "bloomOptions \<Rightarrow> real \<Rightarrow> real" where
  "shadowCrushFactorOf opts highlightAmount =
     1.0 + 0.15 * bloomIntensity opts * shadowCrushStrength opts * (1 + highlightAmount * 2)"

definition adjustedPixel ::
  "bloomOptions \<Rightarrow> real list \<Rightarrow> real list \<Rightarrow> real list \<Rightarrow> real \<Rightarrow> nat \<Rightarrow> nat \<Rightarrow> nat
   \<Rightarrow> real list \<Rightarrow> real list" where
  "adjustedPixel opts dat lumArray crushInfluence shadowCrushFactor w x y a =
     (let pi = y * w + x;
          base = pi * 4;
          lum = lumArray ! pi;
          shadowMask0 = clamp (1 - lum / 128) 0 1;
          shadowMask = shadowMask0 powr 1.5;
          crushAmount = shadowMask * crushInfluence ! pi * 0.3 * bloomIntensity opts
                        * shadowCrushStrength opts * shadowCrushFactor;
          shadowAdj = 1 - crushAmount;
          a1 = a[base := dat ! base * shadowAdj, base + 1 := dat ! (base + 1) * shadowAdj,
                 base + 2 := dat ! (base + 2) * shadowAdj, base + 3 := 255];
          blackLift = 5 * bloomIntensity opts * (2 - shadowCrushStrength opts);
          a2 = a1[base := max (a1 ! base) blackLift];
          a3 = a2[base + 1 := max (a2 ! (base + 1)) blackLift]
      in a3[base + 2 := max (a3 ! (base + 2)) blackLift])"

definition adjustedBuffer ::
  "bloomOptions \<Rightarrow> real list \<Rightarrow> real list \<Rightarrow> real list \<Rightarrow> real \<Rightarrow> nat \<Rightarrow> nat \<Rightarrow> real list" where
  "adjustedBuffer opts dat lumArray crushInfluence shadowCrushFactor w h =
     forPixels w h (adjustedPixel opts dat lumArray crushInfluence shadowCrushFactor w)
       (replicate (length dat) 0)"

definition bloomResultPixel ::
  "bloomOptions \<Rightarrow> real list \<Rightarrow> real list \<Rightarrow> nat \<Rightarrow> nat \<Rightarrow> nat \<Rightarrow> real list \<Rightarrow> real list" where
  "bloomResultPixel opts adjusted combinedBloom w x y res =
     (let screenAmount = 0.5 * bloomIntensity opts * bloomStrength opts;
          additiveAmount = 0.25 * bloomIntensity opts * bloomStrength opts;
          base = (y * w + x) * 4;
          r1 = fold (\<lambda>c r.
                 let orig = adjusted ! (base + c) / 255;
                     bloom = combinedBloom ! (base + c) / 255;
                     screened = 1 - (1 - orig) * (1 - bloom * screenAmount)
                 in r[base + c := screened * 255 + combinedBloom ! (base + c) * additiveAmount])
               [0..<3] res;
          bloomLum = (combinedBloom ! base + combinedBloom ! (base + 1)
                      + combinedBloom ! (base + 2)) / 765;
          bmask = clamp bloomLum 0 1;
          r2 = r1[base := r1 ! base + bmask * 8 * bloomIntensity opts * bloomStrength opts];
          r3 = r2[base + 2 := r2 ! (base + 2) + bmask * 4 * bloomIntensity opts * bloomStrength opts];
          r4 = r3[base := clamp (r3 ! base) 0 255];
          r5 = r4[base + 1 := clamp (r4 ! (base + 1)) 0 255];
          r6 = r5[base + 2 := clamp (r5 ! (base + 2)) 0 255]
      in r6[base + 3 := 255])"

definition bloomResult ::
  "bloomOptions \<Rightarrow> real list \<Rightarrow> real list \<Rightarrow> nat \<Rightarrow> nat \<Rightarrow> nat \<Rightarrow> real list" where
  "bloomResult opts adjusted combinedBloom len w h =
     forPixels w h (bloomResultPixel opts adjusted combinedBloom w) (replicate len 0)"

text \<open>
  The function in two parts: the layers it derives from the image (the pixel data, the
  highlight mask, the combined bloom and the shadow-crushed buffer, none of which reads
  \<^verbatim>\<open>bloomStrength\<close>), then the compositing loop and the conversion to an image.
\<close>

definition bloomLayers ::
  "skia \<Rightarrow> image \<Rightarrow> bloomOptions
   \<Rightarrow> error + (pixelBuffer \<times> real list \<times> real list \<times> real list)" where
  "bloomLayers sk img opts =
     bindE (imageToPixels sk img) (\<lambda>px.
       let dat = bufData px; w = bufWidth px; h = bufHeight px;
           inten = bloomIntensity opts;
           masks = bloomMasks dat w h (highlightThreshold opts);
           lumArray = fst masks;
           highlightMask = snd masks;
           bloomPixels = bloomLayer dat highlightMask w h
       in bindE (pixelsToImage sk bloomPixels w h) (\<lambda>bloomImage.
       let baseBloomRadius = real_of_int (max 15 \<lfloor>40 * inten\<rfloor>);
           r1 = pilRadiusToSigma (baseBloomRadius * bloomRadius opts);
           r2 = pilRadiusToSigma (baseBloomRadius * bloomRadius opts * 2.5);
           r3 = pilRadiusToSigma (baseBloomRadius * bloomRadius opts * 4)
       in bindE (bindE (applyGaussianBlur sk bloomImage r1) (imageToPixels sk)) (\<lambda>bloom1.
          bindE (bindE (applyGaussianBlur sk bloomImage r2) (imageToPixels sk)) (\<lambda>bloom2.
          bindE (bindE (applyGaussianBlur sk bloomImage r3) (imageToPixels sk)) (\<lambda>bloom3.
       let combinedBloom = combineBloom (bufData bloom1) (bufData bloom2) (bufData bloom3) w h;
           baseCrushRadius = real_of_int (max 10 \<lfloor>30 * inten\<rfloor>);
           cr1 = pilRadiusToSigma (baseCrushRadius * shadowCrushRadius opts);
           cr2 = pilRadiusToSigma (baseCrushRadius * shadowCrushRadius opts * 2);
           hmRGBA = grayRGBA (map (\<lambda>m. m * 255) highlightMask) (w * h)
       in bindE (pixelsToImage sk hmRGBA w h) (\<lambda>hmImage.
          bindE (bindE (applyGaussianBlur sk hmImage cr1) (imageToPixels sk)) (\<lambda>crush1Pixels.
          bindE (bindE (applyGaussianBlur sk hmImage cr2) (imageToPixels sk)) (\<lambda>crush2Pixels.
       let crushInfluence = crushInfluenceMap (bufData crush1Pixels) (bufData crush2Pixels) w h;
           highlightAmount = highlightAmountOf highlightMask w h;
           shadowCrushFactor = shadowCrushFactorOf opts highlightAmount;
           adjusted = adjustedBuffer opts dat lumArray crushInfluence shadowCrushFactor w h
       in Inr (px, highlightMask, combinedBloom, adjusted)))))))))"

definition applyBloomEffect :: "skia \<Rightarrow> image \<Rightarrow> bloomOptions \<Rightarrow> error + image" where
  "applyBloomEffect sk img opts =
     bindE (bloomLayers sk img opts) (\<lambda>(px, highlightMask, combinedBloom, adjusted).
       let res = bloomResult opts adjusted combinedBloom (length (bufData px))
                   (bufWidth px) (bufHeight px)
       in pixelsToImage sk res (bufWidth px) (bufHeight px))"

text \<open>Step 5b: \<^verbatim>\<open>addChromaticAberration\<close>.\<close>

definition aberrationPixel ::
  "real list \<Rightarrow> int \<Rightarrow> real \<Rightarrow> real \<Rightarrow> nat \<Rightarrow> nat \<Rightarrow> nat \<Rightarrow> nat \<Rightarrow> real list \<Rightarrow> real list" where
  "aberrationPixel orig shft blendOrig blendShift w h x y d =
     (let base = (y * w + x) * 4;
          srcRY = int y - shft;
          srcRX = int x - shft;
          d1 = (if srcRY \<ge> 0 \<and> srcRX \<ge> 0
                then let srcBase = (nat srcRY * w + nat srcRX) * 4
                     in d[base := clamp (orig ! base * blendOrig + orig ! srcBase * blendShift) 0 255]
                else d);
          srcBY = int y + shft;
          srcBX = int x + shft
      in if srcBY < int h \<and> srcBX < int w
         then let srcBase = (nat srcBY * w + nat srcBX) * 4
              in d1[base + 2 := clamp (orig ! (base + 2) * blendOrig
                                       + orig ! (srcBase + 2) * blendShift) 0 255]
         else d1)"

definition addChromaticAberration :: "real list \<Rightarrow> nat \<Rightarrow> nat \<Rightarrow> real \<Rightarrow> real list" where
  "addChromaticAberration dat w h inten =
     (let shft = \<lfloor>2 * inten\<rfloor>
      in if shft < 1 then dat
         else let orig = dat;
                  blendOrig = 1 - 0.5 * inten;
                  blendShift = 0.5 * inten
              in forPixels w h (aberrationPixel orig shft blendOrig blendShift w h) dat)"

text \<open>Step 6: \<^verbatim>\<open>applyOversharpening\<close>.\<close>

definition oversharpenData :: "real list \<Rightarrow> real list \<Rightarrow> real \<Rightarrow> real list" where
  "oversharpenData origData blurData inten =
     (let sharpeningAmount = 1.5 * inten
      in fold (\<lambda>i d. if i mod 4 = 3 then d
                     else d[i := clamp (d ! i + (d ! i - blurData ! i) * sharpeningAmount) 0 255])
              [0..<length origData] origData)"

definition applyOversharpening :: "skia \<Rightarrow> image \<Rightarrow> real \<Rightarrow> error + image" where
  "applyOversharpening sk img inten =
     (let sigma = pilRadiusToSigma 1.5
      in bindE (applyGaussianBlur sk img sigma) (\<lambda>blurred.
         bindE (imageToPixels sk img) (\<lambda>origPx.
         bindE (imageToPixels sk blurred) (\<lambda>blurPx.
           pixelsToImage sk (oversharpenData (bufData origPx) (bufData blurPx) inten)
             (bufWidth origPx) (bufHeight origPx)))))"

text \<open>Step 7: \<^verbatim>\<open>addDigitalNoise\<close>. It draws from \<^verbatim>\<open>Math.random\<close>: the state of the
  loops is the buffer with the rest of the random sequence.\<close>

definition noiseChannel ::
  "real \<Rightarrow> real \<Rightarrow> nat \<Rightarrow> nat \<Rightarrow> real list \<times> real stream \<Rightarrow> (real list \<times> real stream) option" where
  "noiseChannel noiseStrength shadowMask base c st =
     (case st of (d, rnd) \<Rightarrow>
        (case randomNormal rnd of None \<Rightarrow> None
         | Some (n, rnd') \<Rightarrow>
             let noise = n * noiseStrength;
                 weighted = noise * (0.5 + shadowMask * 0.5)
             in Some (d[base + c := clamp (d ! (base + c) + weighted) 0 255], rnd')))"

definition noisePixel ::
  "real \<Rightarrow> nat \<Rightarrow> nat \<Rightarrow> nat \<Rightarrow> real list \<times> real stream \<Rightarrow> (real list \<times> real stream) option" where
  "noisePixel noiseStrength w y x st =
     (let base = (y * w + x) * 4;
          lum = luminance (fst st) x y w;
          shadowMask = 1 - lum / 255
      in foldOpt (noiseChannel noiseStrength shadowMask base) [0..<3] st)"

definition addDigitalNoise ::
  "real list \<Rightarrow> nat \<Rightarrow> nat \<Rightarrow> real \<Rightarrow> real stream \<Rightarrow> (real list \<times> real stream) option" where
  "addDigitalNoise dat w h inten rnd =
     (let noiseStrength = 12 * inten
      in foldOpt (\<lambda>y. foldOpt (noisePixel noiseStrength w y) [0..<w]) [0..<h] (dat, rnd))"

text \<open>Step 9: \<^verbatim>\<open>applyBarrelDistortion\<close>.\<close>

definition barrelPixel :: "real list \<Rightarrow> real \<Rightarrow> nat \<Rightarrow> nat \<Rightarrow> nat \<Rightarrow> nat \<Rightarrow> real list \<Rightarrow> real list" where
  "barrelPixel dat k w h x y res =
     (let cx = real w / 2;
          cy = real h / 2;
          xNorm = (real x - cx) / cx;
          yNorm = (real y - cy) / cy;
          r = sqrt (xNorm * xNorm + yNorm * yNorm);
          rDistorted = r * (1 + k * r * r);
          scale = (if r = 0 then 1 else rDistorted / r);
          srcX = clamp (round (xNorm * scale * cx + cx)) 0 (int w - 1);
          srcY = clamp (round (yNorm * scale * cy + cy)) 0 (int h - 1);
          dstBase = (y * w + x) * 4;
          srcBase = nat ((srcY * int w + srcX) * 4)
      in res[dstBase := dat ! srcBase, dstBase + 1 := dat ! (srcBase + 1),
             dstBase + 2 := dat ! (srcBase + 2)])"

definition applyBarrelDistortion :: "real list \<Rightarrow> nat \<Rightarrow> nat \<Rightarrow> real \<Rightarrow> real list" where
  "applyBarrelDistortion dat w h inten =
     (let k = 0.1 * inten;
          res0 = replicate (length dat) 0;
          res1 = fold (\<lambda>j r. r[3 + 4 * j := 255]) [0..<length dat div 4] res0
      in forPixels w h (barrelPixel dat k w h) res1)"

text \<open>Step 8, the lossy re-encode: \<^verbatim>\<open>applyJpegArtifacts\<close>.\<close>

definition applyJpegArtifacts :: "skia \<Rightarrow> image \<Rightarrow> real \<Rightarrow> image" where
  "applyJpegArtifacts sk img inten =
     (let quality = round (70 - 30 * inten)
      in case encodeToBytes sk img (case ImageFormat_JPEG sk of Some f \<Rightarrow> f | None \<Rightarrow> 3) quality of
           None \<Rightarrow> img
         | Some encoded \<Rightarrow>
             (case MakeImageFromEncoded sk encoded of Some decoded \<Rightarrow> decoded | None \<Rightarrow> img))"

text \<open>Step 10: \<^verbatim>\<open>addDateStamp\<close>. \<^verbatim>\<open>String(n)\<close> of an integer and \<^verbatim>\<open>padStart\<close> with a
  one-character filler first.\<close>

fun showNat :: "nat \<Rightarrow> string" where
  "showNat n = (if n < 10 then [''0123456789'' ! n]
                else showNat (n div 10) @ [''0123456789'' ! (n mod 10)])"

declare showNat.simps [simp del]

definition String_of :: "int \<Rightarrow> string" where
  "String_of i = (if i < 0 then CHR ''-'' # showNat (nat (- i)) else showNat (nat i))"

definition padStart :: "string \<Rightarrow> nat \<Rightarrow> char \<Rightarrow> string" where
  "padStart s n c = replicate (n - length s) c @ s"

definition generateDate :: "real stream \<Rightarrow> string \<times> real stream" where
  "generateDate rnd =
     (case Math_random rnd of (r1, rnd1) \<Rightarrow>
      let year = 2001 + \<lfloor>r1 * 6\<rfloor>
      in case Math_random rnd1 of (r2, rnd2) \<Rightarrow>
      let month = 1 + \<lfloor>r2 * 12\<rfloor>
      in case Math_random rnd2 of (r3, rnd3) \<Rightarrow>
      let day = 1 + \<lfloor>r3 * 28\<rfloor>
      in (padStart (String_of month) 2 CHR ''0'' @ ''/''
          @ padStart (String_of day) 2 CHR ''0'' @ ''/'' @ String_of year, rnd3))"

definition addDateStampImage ::
  "skia \<Rightarrow> image \<Rightarrow> string option \<Rightarrow> real stream \<Rightarrow> (error + image) \<times> real stream" where
  "addDateStampImage sk img customText rnd =
     (let w = width img; h = height img
      in case makeSurface sk (int w) (int h) of
           Inl e \<Rightarrow> (Inl e, rnd)
         | Inr s0 \<Rightarrow>
            let s1 = s0\<lparr>canvas := drawImage sk s0 img 0 0 None\<rparr>;
                gen = (case customText of Some t \<Rightarrow> (t, rnd) | None \<Rightarrow> generateDate rnd);
                txt = fst gen;
                fnt = \<lparr>fontSize = real_of_int (max 16 \<lfloor>real w / 30\<rfloor>)\<rparr>;
                textWidth = measureTextWidth sk fnt txt;
                padding = 20;
                x = real w - textWidth - padding;
                y = real h - padding;
                shadowPaint = Skia_Paint\<lparr>paintColor := Some (100, 50, 0, 1)\<rparr>;
                s2 = s1\<lparr>canvas := drawText sk s1 txt (x + 1) (y + 1) shadowPaint fnt\<rparr>;
                datePaint = Skia_Paint\<lparr>paintColor := Some (255, 140, 0, 1)\<rparr>;
                s3 = s2\<lparr>canvas := drawText sk s2 txt x y datePaint fnt\<rparr>
            in (Inr (makeImageSnapshot s3), snd gen))"

section \<open>Main pipeline\<close>

text \<open>
  \<^verbatim>\<open>applyY2KCameraEffect\<close>, one definition for each numbered step of its body, each with
  the arguments that the body passes.
\<close>

definition step1_reduceResolution :: "skia \<Rightarrow> real \<Rightarrow> image \<Rightarrow> error + image" where
  "step1_reduceResolution sk inten sourceImage = reduceResolution sk sourceImage (inten * 0.02)"

definition steps2to4_data :: "real \<Rightarrow> pixelBuffer \<Rightarrow> real list" where
  "steps2to4_data inten px =
     (let w = bufWidth px; h = bufHeight px;
          d1 = applyCoolCast (bufData px) w h inten;
          d2 = adjustSaturation d1 w h (inten * 1.3);
          d3 = adjustVibrance d2 w h (inten * 1.3)
      in reduceDynamicRange d3 w h inten)"

definition steps2to4_colour :: "skia \<Rightarrow> real \<Rightarrow> image \<Rightarrow> error + image" where
  "steps2to4_colour sk inten img =
     bindE (imageToPixels sk img) (\<lambda>px.
       pixelsToImage sk (steps2to4_data inten px) (bufWidth px) (bufHeight px))"

definition step4b_localContrast :: "skia \<Rightarrow> real \<Rightarrow> image \<Rightarrow> error + image" where
  "step4b_localContrast sk inten img = reduceLocalContrast sk img (inten * 1.0) 5"

definition step5_bloomOptions :: "real \<Rightarrow> bloomOptions" where
  "step5_bloomOptions inten =
     \<lparr>bloomIntensity = 0.8, highlightThreshold = 150, bloomStrength = inten * 0.8,
      bloomRadius = inten * 0.01, shadowCrushStrength = inten * 0.5,
      shadowCrushRadius = inten * 0.001\<rparr>"

definition step5_bloom :: "skia \<Rightarrow> real \<Rightarrow> image \<Rightarrow> error + image" where
  "step5_bloom sk inten img = applyBloomEffect sk img (step5_bloomOptions inten)"

definition step5b_aberration :: "skia \<Rightarrow> real \<Rightarrow> image \<Rightarrow> error + image" where
  "step5b_aberration sk inten img =
     bindE (imageToPixels sk img) (\<lambda>px.
       pixelsToImage sk (addChromaticAberration (bufData px) (bufWidth px) (bufHeight px) inten)
         (bufWidth px) (bufHeight px))"

definition step6_oversharpening :: "skia \<Rightarrow> real \<Rightarrow> image \<Rightarrow> error + image" where
  "step6_oversharpening sk inten img = applyOversharpening sk img (inten * 1.3)"

definition steps7to9_noiseBarrel ::
  "skia \<Rightarrow> real \<Rightarrow> image \<Rightarrow> real stream \<Rightarrow> ((error + image) \<times> real stream) option" where
  "steps7to9_noiseBarrel sk inten img rnd =
     (case imageToPixels sk img of
        Inl e \<Rightarrow> Some (Inl e, rnd)
      | Inr px \<Rightarrow>
          (case addDigitalNoise (bufData px) (bufWidth px) (bufHeight px) inten rnd of
             None \<Rightarrow> None
           | Some (noisy, rnd') \<Rightarrow>
               let px' = px\<lparr>bufData := applyBarrelDistortion noisy (bufWidth px) (bufHeight px) inten\<rparr>
               in Some (pixelsToImage sk (bufData px') (bufWidth px') (bufHeight px'), rnd')))"

definition stepsBeforeNoise :: "skia \<Rightarrow> real \<Rightarrow> image \<Rightarrow> error + image" where
  "stepsBeforeNoise sk inten sourceImage =
     bindE (step1_reduceResolution sk inten sourceImage) (\<lambda>i1.
     bindE (steps2to4_colour sk inten i1) (\<lambda>i4.
     bindE (step4b_localContrast sk inten i4) (\<lambda>i4b.
     bindE (step5_bloom sk inten i4b) (\<lambda>i5.
     bindE (step5b_aberration sk inten i5) (\<lambda>i5b.
       step6_oversharpening sk inten i5b)))))"

definition applyY2KCameraEffect ::
  "skia \<Rightarrow> real stream \<Rightarrow> image \<Rightarrow> y2kOptions \<Rightarrow> ((error + image) \<times> real stream) option" where
  "applyY2KCameraEffect sk rnd sourceImage options =
     (let inten = (case intensity options of Some i \<Rightarrow> i | None \<Rightarrow> 1.0);
          addStamp = (case addDateStamp options of Some b \<Rightarrow> b | None \<Rightarrow> True);
          stampText = dateStampText options;
          quality = (case outputQuality options of Some q \<Rightarrow> q | None \<Rightarrow> 85);
          originalW = width sourceImage;
          originalH = height sourceImage
      in case stepsBeforeNoise sk inten sourceImage of
           Inl e \<Rightarrow> Some (Inl e, rnd)
         | Inr i6 \<Rightarrow>
             (case steps7to9_noiseBarrel sk inten i6 rnd of
                None \<Rightarrow> None
              | Some (Inl e, rnd') \<Rightarrow> Some (Inl e, rnd')
              | Some (Inr i9, rnd') \<Rightarrow>
                  let i8 = applyJpegArtifacts sk i9 inten
                  in (case drawImageToSurface sk i8 (int originalW) (int originalH) None of
                        Inl e \<Rightarrow> Some (Inl e, rnd')
                      | Inr i10 \<Rightarrow>
                          if addStamp then Some (addDateStampImage sk i10 stampText rnd')
                          else Some (Inr i10, rnd'))))"

section \<open>The statements of the specification, where they differ from the code\<close>

text \<open>The sharpening formula as the specification words it, \<open>inten\<close> the intensity of the
  pipeline.\<close>

definition spec_sharpen :: "real \<Rightarrow> real \<Rightarrow> real \<Rightarrow> real" where
  "spec_sharpen v blurredValue inten = clamp (v + (v - blurredValue) * 1.5 * inten) 0 255"

text \<open>The scale factor of the initial downscale as the specification words it.\<close>

definition spec_downscale_factor :: "nat \<Rightarrow> nat \<Rightarrow> real \<Rightarrow> real" where
  "spec_downscale_factor w h inten =
     1 - (1 - sqrt (2000000 / real (w * h))) * inten"

text \<open>A date in the form MM/DD/YYYY with the ranges of the specification.\<close>

definition isDigit :: "char \<Rightarrow> bool" where
  "isDigit c = (c \<in> set ''0123456789'')"

definition digitValue :: "char \<Rightarrow> nat" where
  "digitValue c = of_char c - 48"

fun matchesDate :: "string \<Rightarrow> bool" where
  "matchesDate [m1, m2, s1, d1, d2, s2, y1, y2, y3, y4] =
     (isDigit m1 \<and> isDigit m2 \<and> s1 = CHR ''/'' \<and> isDigit d1 \<and> isDigit d2 \<and> s2 = CHR ''/''
      \<and> isDigit y1 \<and> isDigit y2 \<and> isDigit y3 \<and> isDigit y4
      \<and> 1 \<le> 10 * digitValue m1 + digitValue m2 \<and> 10 * digitValue m1 + digitValue m2 \<le> 12
      \<and> 1 \<le> 10 * digitValue d1 + digitValue d2 \<and> 10 * digitValue d1 + digitValue d2 \<le> 28
      \<and> 2001 \<le> 1000 * digitValue y1 + 100 * digitValue y2 + 10 * digitValue y3 + digitValue y4
      \<and> 1000 * digitValue y1 + 100 * digitValue y2 + 10 * digitValue y3 + digitValue y4 \<le> 2006)"
| "matchesDate _ = False"

text \<open>Every channel value of a buffer lies between 0 and 255.\<close>

definition inRange :: "real list \<Rightarrow> bool" where
  "inRange d = list_all (\<lambda>v. 0 \<le> v \<and> v \<le> 255) d"

text \<open>
  A Skia for examples: no call fails except the codec, a surface starts transparent
  black, drawing an image copies its bytes, a blur filter flattens every byte to 80 and
  text leaves the canvas as it is.
\<close>

definition flatSkia :: skia where
  "flatSkia =
     \<lparr>Surface_Make = (\<lambda>w h. Some (replicate (w * h * 4) 0)),
      readPixelsOk = (\<lambda>i. True),
      MakeImageOk = (\<lambda>w h b. True),
      drawImageRect = (\<lambda>s i src dst p. pixels i),
      drawImage = (\<lambda>s i x y p.
         case p of None \<Rightarrow> pixels i
         | Some q \<Rightarrow> (case paintFilter q of None \<Rightarrow> pixels i
                      | Some f \<Rightarrow> replicate (length (pixels i)) 80)),
      drawText = (\<lambda>s t x y p f. canvas s),
      measureTextWidth = (\<lambda>f t. fontSize f * real (length t)),
      ImageFormat_JPEG = None,
      encodeToBytes = (\<lambda>i f q. None),
      MakeImageFromEncoded = (\<lambda>b. None)\<rparr>"

text \<open>An opaque white image of the given dimensions.\<close>

definition whiteImage :: "nat \<Rightarrow> nat \<Rightarrow> image" where
  "whiteImage w h = \<lparr>width = w, height = h, pixels = replicate (w * h * 4) 255\<rparr>"

text \<open>The buffer of a 2 by 2 image, for examples.\<close>

definition exampleBuffer :: "real list" where
  "exampleBuffer = [10, 20, 30, 255, 40, 50, 60, 255, 70, 80, 90, 255, 100, 110, 120, 255]"

text \<open>
  A function that draws from \<^verbatim>\<open>Math.random\<close> reads a prefix of the sequence: when it
  returns, it has consumed some number \<open>n\<close> of values, and on every sequence with the same
  first \<open>n\<close> values it returns the same result and consumes the same number of values.
\<close>

definition readsPrefix :: "(real stream \<Rightarrow> ('r \<times> real stream) option) \<Rightarrow> bool" where
  "readsPrefix f =
     (\<forall>rnd r rnd'. f rnd = Some (r, rnd') \<longrightarrow>
        (\<exists>n. rnd' = sdrop n rnd
           \<and> (\<forall>rnd2. stake n rnd2 = stake n rnd \<longrightarrow> f rnd2 = Some (r, sdrop n rnd2))))"



section \<open>Lossy re-encode: failure of the codec\<close>

text \<open>
  C4. When the codec reports a failure, that is when \<^verbatim>\<open>encodeToBytes\<close> returns no bytes or
  \<^verbatim>\<open>MakeImageFromEncoded\<close> returns no image, \<^verbatim>\<open>applyJpegArtifacts\<close> returns the image it
  was given. The stage has no \<^verbatim>\<open>throw\<close>: its result is an image, never an error, so the
  pipeline goes on to the restore step with that image.
\<close>

theorem applyJpegArtifacts_codec_failure:
  assumes "encodeToBytes sk img (case ImageFormat_JPEG sk of Some f \<Rightarrow> f | None \<Rightarrow> 3)
             (round (70 - 30 * inten)) = None
           \<or> (\<exists>enc. encodeToBytes sk img (case ImageFormat_JPEG sk of Some f \<Rightarrow> f | None \<Rightarrow> 3)
                       (round (70 - 30 * inten)) = Some enc
                    \<and> MakeImageFromEncoded sk enc = None)"
  shows "applyJpegArtifacts sk img inten = img"
  using assms by (auto simp: applyJpegArtifacts_def Let_def)

theorem applyJpegArtifacts_codec_failure_witness:
  "applyJpegArtifacts
     \<lparr>Surface_Make = (\<lambda>w h. None), readPixelsOk = (\<lambda>i. True), MakeImageOk = (\<lambda>w h b. True),
      drawImageRect = (\<lambda>s i r1 r2 p. []), drawImage = (\<lambda>s i x y p. []),
      drawText = (\<lambda>s t x y p f. []), measureTextWidth = (\<lambda>f t. 0), ImageFormat_JPEG = None,
      encodeToBytes = (\<lambda>i f q. if q = 40 then Some [1, 2] else None),
      MakeImageFromEncoded = (\<lambda>b. None)\<rparr>
     \<lparr>width = 1, height = 1, pixels = [255, 255, 255, 255]\<rparr> 1
   = \<lparr>width = 1, height = 1, pixels = [255, 255, 255, 255]\<rparr>"
  by (rule applyJpegArtifacts_codec_failure) simp

section \<open>Date stamp: the generated text\<close>


lemma showNat_one: "n < 10 \<Longrightarrow> showNat n = [''0123456789'' ! n]"
  by (subst showNat.simps) simp

lemma showNat_two: "10 \<le> n \<Longrightarrow> n < 100 \<Longrightarrow>
    showNat n = [''0123456789'' ! (n div 10), ''0123456789'' ! (n mod 10)]"
  by (subst showNat.simps) (simp add: showNat_one)

lemma d100: "(n::nat) div 10 div 10 = n div 100" by (simp add: div_mult2_eq[symmetric])

lemma showNat_three: "100 \<le> n \<Longrightarrow> n < 1000 \<Longrightarrow>
    showNat n = [''0123456789'' ! (n div 100), ''0123456789'' ! (n div 10 mod 10), ''0123456789'' ! (n mod 10)]"
proof -
  assume a: "100 \<le> n" "n < 1000"
  have b: "10 \<le> n div 10" "n div 10 < 100" using a by auto
  show ?thesis
    apply (subst showNat.simps)
    apply (simp only: showNat_two[OF b] d100)
    using a apply simp
    done
qed


lemma d1000: "(n::nat) div 10 div 100 = n div 1000" by (simp add: div_mult2_eq[symmetric])

lemma showNat_four: "1000 \<le> n \<Longrightarrow> n < 10000 \<Longrightarrow>
    showNat n = [''0123456789'' ! (n div 1000), ''0123456789'' ! (n div 100 mod 10),
                 ''0123456789'' ! (n div 10 mod 10), ''0123456789'' ! (n mod 10)]"
proof -
  assume a: "1000 \<le> n" "n < 10000"
  have b: "100 \<le> n div 10" "n div 10 < 1000" using a by auto
  show ?thesis
    apply (subst showNat.simps)
    apply (simp only: showNat_three[OF b] d100 d1000)
    using a apply simp
    done
qed

lemma digit_nth:
  assumes "k < 10"
  shows "isDigit (''0123456789'' ! k)" and "digitValue (''0123456789'' ! k) = k"
proof -
  from assms have "k = 0 \<or> k = 1 \<or> k = 2 \<or> k = 3 \<or> k = 4 \<or> k = 5 \<or> k = 6 \<or> k = 7 \<or> k = 8 \<or> k = 9"
    by arith
  then show "isDigit (''0123456789'' ! k)" and "digitValue (''0123456789'' ! k) = k"
    by (auto simp: isDigit_def digitValue_def)
qed

lemma pad2:
  assumes "0 \<le> i" "i < 100"
  shows "padStart (String_of i) 2 CHR ''0'' = [''0123456789'' ! (nat i div 10), ''0123456789'' ! (nat i mod 10)]"
proof (cases "nat i < 10")
  case True
  then show ?thesis using assms by (simp add: padStart_def String_of_def showNat_one)
next
  case False
  then show ?thesis using assms by (simp add: padStart_def String_of_def showNat_two)
qed

lemma floor_scaled: "0 \<le> r \<Longrightarrow> r < 1 \<Longrightarrow> 0 < n \<Longrightarrow> 0 \<le> \<lfloor>r * real n\<rfloor> \<and> \<lfloor>r * real n\<rfloor> < int n"
  by (simp add: floor_less_iff)

lemma date_parts:
  fixes mo dy yr :: nat
  assumes "1 \<le> mo" "mo \<le> 12" "1 \<le> dy" "dy \<le> 28" "2001 \<le> yr" "yr \<le> 2006"
  shows "matchesDate ([''0123456789'' ! (mo div 10), ''0123456789'' ! (mo mod 10)] @ ''/'' @
      [''0123456789'' ! (dy div 10), ''0123456789'' ! (dy mod 10)] @ ''/'' @
      [''0123456789'' ! (yr div 1000), ''0123456789'' ! (yr div 100 mod 10),
                 ''0123456789'' ! (yr div 10 mod 10), ''0123456789'' ! (yr mod 10)])"
proof -
  have dm: "mo div 10 < 10" "mo mod 10 < 10" "dy div 10 < 10" "dy mod 10 < 10"
     "yr div 1000 < 10" "yr div 100 mod 10 < 10" "yr div 10 mod 10 < 10" "yr mod 10 < 10"
    using assms by simp_all
  have vals: "10 * (mo div 10) + mo mod 10 = mo"
     "10 * (dy div 10) + dy mod 10 = dy"
    by simp_all
  have "yr = 2001 \<or> yr = 2002 \<or> yr = 2003 \<or> yr = 2004 \<or> yr = 2005 \<or> yr = 2006"
    using assms by arith
  then have v2: "1000 * (yr div 1000) + 100 * (yr div 100 mod 10) + 10 * (yr div 10 mod 10) + yr mod 10 = yr"
    by auto
  show ?thesis
    by (simp only: append.simps matchesDate.simps digit_nth[OF dm(1)] digit_nth[OF dm(2)] digit_nth[OF dm(3)] digit_nth[OF dm(4)]
       digit_nth[OF dm(5)] digit_nth[OF dm(6)] digit_nth[OF dm(7)] digit_nth[OF dm(8)] vals v2 assms simp_thms)
qed



text \<open>
  C9. \<^verbatim>\<open>Math.random\<close> returns a value from 0 (inclusive) to 1 (exclusive). For three such
  draws the text that \<^verbatim>\<open>addDateStamp\<close> generates has the form MM/DD/YYYY: two digits,
  a slash, two digits, a slash, four digits, with the month from 1 to 12, the day from 1
  to 28 and the year from 2001 to 2006.
\<close>

theorem generated_date_format:
  assumes "0 \<le> shd rnd" "shd rnd < 1"
    and "0 \<le> shd (stl rnd)" "shd (stl rnd) < 1"
    and "0 \<le> shd (stl (stl rnd))" "shd (stl (stl rnd)) < 1"
  shows "matchesDate (fst (generateDate rnd))"
proof -
  define yr where "yr = 2001 + \<lfloor>shd rnd * 6\<rfloor>"
  define mo where "mo = 1 + \<lfloor>shd (stl rnd) * 12\<rfloor>"
  define dy where "dy = 1 + \<lfloor>shd (stl (stl rnd)) * 28\<rfloor>"
  have y: "2001 \<le> yr" "yr \<le> 2006"
    using floor_scaled[OF assms(1,2), of 6] by (simp_all add: yr_def)
  have m: "1 \<le> mo" "mo \<le> 12"
    using floor_scaled[OF assms(3,4), of 12] by (simp_all add: mo_def)
  have d: "1 \<le> dy" "dy \<le> 28"
    using floor_scaled[OF assms(5,6), of 28] by (simp_all add: dy_def)
  have ys: "String_of yr = [''0123456789'' ! (nat yr div 1000), ''0123456789'' ! (nat yr div 100 mod 10),
                 ''0123456789'' ! (nat yr div 10 mod 10), ''0123456789'' ! (nat yr mod 10)]"
    using y by (simp add: String_of_def showNat_four)
  have g: "fst (generateDate rnd) =
      padStart (String_of mo) 2 CHR ''0'' @ ''/'' @ padStart (String_of dy) 2 CHR ''0'' @ ''/'' @ String_of yr"
    by (simp add: generateDate_def Math_random_def yr_def mo_def dy_def Let_def)
  have p: "padStart (String_of mo) 2 CHR ''0'' = [''0123456789'' ! (nat mo div 10), ''0123456789'' ! (nat mo mod 10)]"
    "padStart (String_of dy) 2 CHR ''0'' = [''0123456789'' ! (nat dy div 10), ''0123456789'' ! (nat dy mod 10)]"
    using m d by (simp_all add: pad2)
  have r: "1 \<le> nat mo" "nat mo \<le> 12" "1 \<le> nat dy" "nat dy \<le> 28" "2001 \<le> nat yr" "nat yr \<le> 2006"
    using y m d by simp_all
  show ?thesis
    unfolding g ys p by (rule date_parts[OF r])
qed

theorem generated_date_format_witness:
  "matchesDate (fst (generateDate (sconst (1/2)))) \<and> fst (generateDate (sconst (1/2))) = ''07/15/2004''"
proof -
  have "matchesDate (fst (generateDate (sconst (1/2))))"
    by (rule generated_date_format) simp_all
  moreover have "fst (generateDate (sconst (1/2))) = ''07/15/2004''"
    by (simp add: generateDate_def Math_random_def String_of_def padStart_def showNat_one showNat_two showNat_four)
  ultimately show ?thesis by simp
qed

section \<open>Loop invariants and the range of channel values\<close>




lemma upt3: "[0..<3] = [0, 1, 2]"
  by (simp add: upt_rec)


lemma clamp_255 [simp]: "0 \<le> clamp (v::real) 0 255" "clamp (v::real) 0 255 \<le> 255"
  by (auto simp: clamp_def)

lemma nth_update_if: "xs[i := x] ! j = (if i = j \<and> i < length xs then x else xs ! j)"
  by (cases "i < length xs") (auto simp: nth_list_update list_update_beyond)

lemma inRange_nth: "inRange d \<longleftrightarrow> (\<forall>i<length d. 0 \<le> d ! i \<and> d ! i \<le> 255)"
  by (simp add: inRange_def list_all_length)




























lemma pixelsToImage_bytes: "pixelsToImage sk d w h = Inr out \<Longrightarrow> pixels out = map toUint8 d"
  by (auto simp: pixelsToImage_def Let_def split: if_splits)


section \<open>The random source: when the noise stage returns\<close>

lemma drawNonzero_nonzero: "u \<noteq> 0 \<Longrightarrow> drawNonzero u rnd = Some (u, rnd)"
  by (subst drawNonzero.simps) simp

lemma drawNonzero_zero: "drawNonzero 0 rnd = drawNonzero (shd rnd) (stl rnd)"
  by (subst drawNonzero.simps) (simp add: Math_random_def)

lemma randomNormal_head:
  assumes "shd rnd \<noteq> 0" "shd (stl rnd) \<noteq> 0"
  shows "randomNormal rnd
         = Some (sqrt (- 2 * ln (shd rnd)) * cos (2 * pi * shd (stl rnd)), stl (stl rnd))"
  using assms by (simp add: randomNormal_def drawNonzero_zero drawNonzero_nonzero)

lemma foldOpt_total:
  assumes "P s" and "\<And>x t. x \<in> set xs \<Longrightarrow> P t \<Longrightarrow> \<exists>t'. f x t = Some t' \<and> P t'"
  shows "\<exists>s'. foldOpt f xs s = Some s' \<and> P s'"
  using assms
proof (induction xs arbitrary: s)
  case Nil
  then show ?case by simp
next
  case (Cons a xs)
  from Cons.prems(2)[of a s] Cons.prems(1) obtain t where t: "f a s = Some t" "P t" by auto
  from Cons.IH[OF t(2)] Cons.prems(2) obtain s' where "foldOpt f xs t = Some s'" "P s'"
    by auto
  with t show ?case by simp
qed

lemma stl_nonzero: "\<forall>x\<in>sset rnd. x \<noteq> (0::real) \<Longrightarrow> \<forall>x\<in>sset (stl rnd). x \<noteq> 0"
  by (metis stl_sset)

lemma randomNormal_total:
  assumes "\<forall>x\<in>sset rnd. x \<noteq> 0"
  shows "\<exists>n rnd'. randomNormal rnd = Some (n, rnd') \<and> (\<forall>x\<in>sset rnd'. x \<noteq> 0)"
proof -
  have "shd rnd \<noteq> 0" "shd (stl rnd) \<noteq> 0"
    using assms stl_nonzero[OF assms] by (simp_all add: shd_sset)
  from randomNormal_head[OF this] stl_nonzero[OF stl_nonzero[OF assms]] show ?thesis by blast
qed

lemma noiseChannel_total:
  assumes "\<forall>x\<in>sset (snd st). x \<noteq> 0"
  shows "\<exists>st'. noiseChannel ns sm base c st = Some st' \<and> (\<forall>x\<in>sset (snd st'). x \<noteq> 0)"
proof -
  obtain d rnd where st: "st = (d, rnd)" by (cases st)
  from randomNormal_total[of rnd] assms st obtain n rnd' where
    "randomNormal rnd = Some (n, rnd')" "\<forall>x\<in>sset rnd'. x \<noteq> 0" by auto
  then show ?thesis by (simp add: noiseChannel_def st Let_def)
qed

lemma addDigitalNoise_total:
  assumes "\<forall>x\<in>sset rnd. x \<noteq> 0"
  shows "\<exists>d' rnd'. addDigitalNoise d w h inten rnd = Some (d', rnd') \<and> (\<forall>x\<in>sset rnd'. x \<noteq> 0)"
proof -
  let ?P = "\<lambda>st :: real list \<times> real stream. \<forall>x\<in>sset (snd st). x \<noteq> 0"
  have px: "\<exists>t'. noisePixel ns w y x t = Some t' \<and> ?P t'" if "?P t" for ns y x t
    unfolding noisePixel_def Let_def
    by (rule foldOpt_total[where P="?P", OF that]) (rule noiseChannel_total)
  have row: "\<exists>t'. foldOpt (noisePixel ns w y) [0..<w] t = Some t' \<and> ?P t'" if "?P t" for ns y t
    by (rule foldOpt_total[where P="?P", OF that]) (rule px)
  have "\<exists>s'. foldOpt (\<lambda>y. foldOpt (noisePixel (12 * inten) w y) [0..<w]) [0..<h] (d, rnd) = Some s' \<and> ?P s'"
    by (rule foldOpt_total[where P="?P"]) (use assms row in auto)
  then show ?thesis by (auto simp: addDigitalNoise_def Let_def)
qed


section \<open>The dimensions of the output\<close>

lemma drawImageToSurface_dims:
  "drawImageToSurface sk img w h p = Inr out \<Longrightarrow> width out = nat w \<and> height out = nat h"
  by (auto simp: drawImageToSurface_def bindE_def makeSurface_def makeImageSnapshot_def Let_def
      split: sum.splits if_splits option.splits)

lemma addDateStampImage_dims:
  "addDateStampImage sk img t rnd = (Inr out, rnd') \<Longrightarrow> width out = width img \<and> height out = height img"
  by (auto simp: addDateStampImage_def makeSurface_def makeImageSnapshot_def Let_def
      split: sum.splits if_splits option.splits)

text \<open>
  C1. Whenever \<^verbatim>\<open>applyY2KCameraEffect\<close> returns an image, whatever the options, the
  image has the width and the height of the source image: the last resize draws onto a
  surface of the original dimensions, and the date stamp draws onto a surface of the
  dimensions of the image it is given.
\<close>

theorem output_dimensions:
  assumes "applyY2KCameraEffect sk rnd sourceImage options = Some (Inr out, rnd')"
  shows "width out = width sourceImage \<and> height out = height sourceImage"
  using assms unfolding applyY2KCameraEffect_def Let_def
  by (auto split: sum.splits option.splits prod.splits if_splits
      dest!: drawImageToSurface_dims addDateStampImage_dims)


text \<open>
  The pipeline does return an image when no Skia call fails, the source has at most
  2,000,000 pixels and \<^verbatim>\<open>Math.random\<close> never returns 0.
\<close>

lemma bindE_returns: "\<not> isl m \<Longrightarrow> (\<And>a. \<not> isl (f a)) \<Longrightarrow> \<not> isl (bindE m f)"
  by (cases m) (auto simp: bindE_def)

lemma imageToPixels_returns: "\<forall>i. readPixelsOk sk i \<Longrightarrow> \<not> isl (imageToPixels sk img)"
  by (simp add: imageToPixels_def)

lemma pixelsToImage_returns: "\<forall>w h b. MakeImageOk sk w h b \<Longrightarrow> \<not> isl (pixelsToImage sk d w h)"
  by (simp add: pixelsToImage_def Let_def)

lemma makeSurface_returns: "\<forall>w h. Surface_Make sk w h \<noteq> None \<Longrightarrow> \<not> isl (makeSurface sk (int w) (int h))"
  by (auto simp: makeSurface_def split: option.splits)

lemma drawImageToSurface_returns:
  "\<forall>w h. Surface_Make sk w h \<noteq> None \<Longrightarrow> \<not> isl (drawImageToSurface sk img (int w) (int h) p)"
  unfolding drawImageToSurface_def Let_def
  by (intro bindE_returns makeSurface_returns) simp_all

lemma applyGaussianBlur_returns:
  "\<forall>w h. Surface_Make sk w h \<noteq> None \<Longrightarrow> \<not> isl (applyGaussianBlur sk img sigma)"
proof (cases "sigma \<le> 0")
  case True
  then show ?thesis by (simp add: applyGaussianBlur_def)
next
  case False
  assume a: "\<forall>w h. Surface_Make sk w h \<noteq> None"
  have "\<not> isl (bindE (makeSurface sk (int (width img)) (int (height img)))
     (\<lambda>s. Inr (makeImageSnapshot (s\<lparr>canvas := drawImage sk s img 0 0
         (Some (Skia_Paint\<lparr>paintFilter := Some (MakeBlur sigma sigma)\<rparr>))\<rparr>))))"
    by (intro bindE_returns makeSurface_returns a) simp
  with False show ?thesis by (simp add: applyGaussianBlur_def Let_def)
qed

lemma reduceResolution_small:
  "width img * height img \<le> 2000000 \<Longrightarrow> reduceResolution sk img inten = Inr img"
  by (simp add: reduceResolution_def Let_def)

lemma stepsBeforeNoise_returns:
  assumes "\<forall>w h. Surface_Make sk w h \<noteq> None" "\<forall>i. readPixelsOk sk i" "\<forall>w h b. MakeImageOk sk w h b"
    and "width img * height img \<le> 2000000"
  shows "\<not> isl (stepsBeforeNoise sk inten img)"
  unfolding stepsBeforeNoise_def step1_reduceResolution_def steps2to4_colour_def
    step4b_localContrast_def step5_bloom_def step5b_aberration_def step6_oversharpening_def
    reduceLocalContrast_def applyBloomEffect_def bloomLayers_def applyOversharpening_def Let_def
    reduceResolution_small[OF assms(4)] split_def
  by (intro bindE_returns imageToPixels_returns pixelsToImage_returns applyGaussianBlur_returns assms(1-3))
    simp_all

lemma steps7to9_returns:
  assumes "\<forall>i. readPixelsOk sk i" "\<forall>w h b. MakeImageOk sk w h b" "\<forall>x\<in>sset rnd. x \<noteq> 0"
  shows "\<exists>out rnd'. steps7to9_noiseBarrel sk inten img rnd = Some (Inr out, rnd')"
proof -
  obtain px where px: "imageToPixels sk img = Inr px"
    using imageToPixels_returns[OF assms(1), of img] by (cases "imageToPixels sk img") auto
  obtain d' rnd' where n: "addDigitalNoise (bufData px) (bufWidth px) (bufHeight px) inten rnd = Some (d', rnd')"
    using addDigitalNoise_total[OF assms(3)] by blast
  obtain out where "pixelsToImage sk (applyBarrelDistortion d' (bufWidth px) (bufHeight px) inten)
      (bufWidth px) (bufHeight px) = Inr out"
    using pixelsToImage_returns[OF assms(2)] by (metis sum.collapse(2))
  then show ?thesis by (simp add: steps7to9_noiseBarrel_def px n Let_def)
qed

lemma addDateStampImage_returns:
  assumes "\<forall>w h. Surface_Make sk w h \<noteq> None"
  shows "\<exists>out rnd'. addDateStampImage sk img t rnd = (Inr out, rnd')"
  using makeSurface_returns[OF assms, of "width img" "height img"]
  by (cases "makeSurface sk (int (width img)) (int (height img))")
     (auto simp: addDateStampImage_def Let_def)

lemma pipeline_returns:
  assumes "\<forall>w h. Surface_Make sk w h \<noteq> None" "\<forall>i. readPixelsOk sk i" "\<forall>w h b. MakeImageOk sk w h b"
    and "width img * height img \<le> 2000000" and "\<forall>x\<in>sset rnd. x \<noteq> 0"
  shows "\<exists>out rnd'. applyY2KCameraEffect sk rnd img options = Some (Inr out, rnd')"
proof -
  define inten where "inten = (case intensity options of Some i \<Rightarrow> i | None \<Rightarrow> 1.0)"
  obtain i6 where i6: "stepsBeforeNoise sk inten img = Inr i6"
    using stepsBeforeNoise_returns[OF assms(1-4), of inten] by (metis sum.collapse(2))
  obtain i9 rnd1 where i9: "steps7to9_noiseBarrel sk inten i6 rnd = Some (Inr i9, rnd1)"
    using steps7to9_returns[OF assms(2,3,5)] by blast
  obtain i10 where i10: "drawImageToSurface sk (applyJpegArtifacts sk i9 inten)
      (int (width img)) (int (height img)) None = Inr i10"
    using drawImageToSurface_returns[OF assms(1)] by (metis sum.collapse(2))
  show ?thesis
    using addDateStampImage_returns[OF assms(1), of i10 "dateStampText options" rnd1]
    by (auto simp: applyY2KCameraEffect_def Let_def inten_def[symmetric] i6 i9 i10)
qed


theorem output_dimensions_witness:
  "\<exists>out rnd'. applyY2KCameraEffect flatSkia (sconst (1 / 2))
       \<lparr>width = 2, height = 1, pixels = [255, 255, 255, 255, 0, 0, 0, 255]\<rparr>
       \<lparr>intensity = Some 1, addDateStamp = Some True, dateStampText = None,
        outputQuality = None\<rparr> = Some (Inr out, rnd')
     \<and> width out = 2 \<and> height out = 1"
proof -
  have ok: "\<forall>w h. Surface_Make flatSkia w h \<noteq> None" "\<forall>i. readPixelsOk flatSkia i"
    "\<forall>w h b. MakeImageOk flatSkia w h b"
    by (simp_all add: flatSkia_def)
  have small: "width \<lparr>width = 2, height = 1, pixels = [255, 255, 255, 255, 0, 0, 0, 255]\<rparr>
      * height \<lparr>width = 2, height = 1, pixels = [255, 255, 255, 255, 0, 0, 0, 255 :: byte]\<rparr>
      \<le> 2000000"
    by simp
  have nz: "\<forall>x\<in>sset (sconst (1 / 2 :: real)). x \<noteq> 0"
    by simp
  obtain out rnd' where r: "applyY2KCameraEffect flatSkia (sconst (1 / 2))
       \<lparr>width = 2, height = 1, pixels = [255, 255, 255, 255, 0, 0, 0, 255]\<rparr>
       \<lparr>intensity = Some 1, addDateStamp = Some True, dateStampText = None,
        outputQuality = None\<rparr> = Some (Inr out, rnd')"
    using pipeline_returns[OF ok small nz] by blast
  from output_dimensions[OF r] r show ?thesis by auto
qed

section \<open>Sharpening\<close>

lemma fold_index_nth:
  assumes "i < length d"
  shows "fold (\<lambda>j s. if c j then s else s[j := g j (s ! j)]) [0..<n] d ! i
         = (if i < n \<and> \<not> c i then g i (d ! i) else d ! i)"
    and "length (fold (\<lambda>j s. if c j then s else s[j := g j (s ! j)]) [0..<n] d) = length d"
  using assms by (induction n) (auto simp: nth_update_if)

lemma oversharpenData_nth:
  assumes "i < length orig"
  shows "oversharpenData orig blur amt ! i
         = (if i mod 4 = 3 then orig ! i
            else clamp (orig ! i + (orig ! i - blur ! i) * (1.5 * amt)) 0 255)"
  unfolding oversharpenData_def Let_def
  using fold_index_nth(1)[OF assms, of "\<lambda>j. j mod 4 = 3"
      "\<lambda>j v. clamp (v + (v - blur ! j) * (1.5 * amt)) 0 255" "length orig"] assms
  by simp

lemma oversharpenData_length: "length (oversharpenData orig blur amt) = length orig"
  unfolding oversharpenData_def Let_def
  using fold_index_nth(2)[of 0 orig "\<lambda>j. j mod 4 = 3"
      "\<lambda>j v. clamp (v + (v - blur ! j) * (1.5 * amt)) 0 255" "length orig"]
  by (cases orig) auto

text \<open>
  C7, as amended. When the sharpening step of the pipeline returns an image, the blur it
  used is \<^verbatim>\<open>applyGaussianBlur\<close> at sigma \<open>1.5 * 0.425\<close>, the alpha bytes are the bytes of
  the input, and every other byte is the rounded value of
  \<open>clamp (v + (v - blurred) * 1.5 * (1.3 * intensity)) 0 255\<close>, with \<open>intensity\<close> the
  intensity of the pipeline: the pipeline calls the stage with \<open>intensity * 1.3\<close>.
\<close>

theorem oversharpening_formula:
  assumes "step6_oversharpening sk inten img = Inr out"
  shows "\<exists>blurred. applyGaussianBlur sk img (pilRadiusToSigma 1.5) = Inr blurred
     \<and> length (pixels out) = length (pixels img)
     \<and> (\<forall>i < length (pixels img). i < length (pixels blurred) \<longrightarrow>
          pixels out ! i
          = toUint8 (if i mod 4 = 3 then real (unat (pixels img ! i))
                     else clamp (real (unat (pixels img ! i))
                                 + (real (unat (pixels img ! i)) - real (unat (pixels blurred ! i)))
                                   * 1.5 * (1.3 * inten)) 0 255))"
proof -
  from assms obtain blurred origPx blurPx where
    b: "applyGaussianBlur sk img (pilRadiusToSigma 1.5) = Inr blurred"
    and o: "imageToPixels sk img = Inr origPx"
    and bp: "imageToPixels sk blurred = Inr blurPx"
    and out: "pixelsToImage sk (oversharpenData (bufData origPx) (bufData blurPx) (inten * 1.3))
               (bufWidth origPx) (bufHeight origPx) = Inr out"
    by (auto simp: step6_oversharpening_def applyOversharpening_def bindE_def Let_def
        split: sum.splits)
  have od: "bufData origPx = map (\<lambda>b. real (unat b)) (pixels img)"
    using o by (auto simp: imageToPixels_def split: if_splits)
  have bd: "bufData blurPx = map (\<lambda>b. real (unat b)) (pixels blurred)"
    using bp by (auto simp: imageToPixels_def split: if_splits)
  have po: "pixels out = map toUint8 (oversharpenData (bufData origPx) (bufData blurPx) (inten * 1.3))"
    using out by (rule pixelsToImage_bytes)
  show ?thesis
  proof (intro exI conjI allI impI)
    show "applyGaussianBlur sk img (pilRadiusToSigma 1.5) = Inr blurred" by (rule b)
    show "length (pixels out) = length (pixels img)"
      by (simp add: po oversharpenData_length od)
  next
    fix i assume i: "i < length (pixels img)" "i < length (pixels blurred)"
    then have "i < length (bufData origPx)" by (simp add: od)
    note raw = oversharpenData_nth[OF this, of "bufData blurPx" "inten * 1.3"]
    have e: "a + (a - b) * (1.5 * (inten * 1.3)) = a + (a - b) * 1.5 * (1.3 * inten)" for a b :: real
      by simp
    have n1: "bufData origPx ! i = real (unat (pixels img ! i))"
      unfolding od using i(1) by (rule nth_map)
    have n2: "bufData blurPx ! i = real (unat (pixels blurred ! i))"
      unfolding bd using i(2) by (rule nth_map)
    have v: "oversharpenData (bufData origPx) (bufData blurPx) (inten * 1.3) ! i
          = (if i mod 4 = 3 then real (unat (pixels img ! i))
                     else clamp (real (unat (pixels img ! i))
                                 + (real (unat (pixels img ! i)) - real (unat (pixels blurred ! i)))
                                   * 1.5 * (1.3 * inten)) 0 255)"
      unfolding raw n1 n2 e by (rule refl)
    have "pixels out ! i = toUint8 (oversharpenData (bufData origPx) (bufData blurPx) (inten * 1.3) ! i)"
      using i by (simp add: po oversharpenData_length od)
    then show "pixels out ! i
          = toUint8 (if i mod 4 = 3 then real (unat (pixels img ! i))
                     else clamp (real (unat (pixels img ! i))
                                 + (real (unat (pixels img ! i)) - real (unat (pixels blurred ! i)))
                                   * 1.5 * (1.3 * inten)) 0 255)"
      by (simp only: v)
  qed
qed


lemma blur_example:
  "applyGaussianBlur flatSkia \<lparr>width = 1, height = 1, pixels = [100, 100, 100, 255]\<rparr>
        (pilRadiusToSigma 1.5) = Inr \<lparr>width = 1, height = 1, pixels = [80, 80, 80, 80]\<rparr>"
  by (simp add: applyGaussianBlur_def pilRadiusToSigma_def bindE_def makeSurface_def
        flatSkia_def makeImageSnapshot_def Skia_Paint_def Let_def)

lemma flatSkia_ok: "readPixelsOk flatSkia i" "MakeImageOk flatSkia w h b"
  "Surface_Make flatSkia w h = Some (replicate (w * h * 4) 0)"
  by (simp_all add: flatSkia_def)

lemma step6_example:
  "step6_oversharpening flatSkia 1 \<lparr>width = 1, height = 1, pixels = [100, 100, 100, 255]\<rparr>
     = Inr \<lparr>width = 1, height = 1, pixels = [139, 139, 139, 255]\<rparr>"
  unfolding step6_oversharpening_def applyOversharpening_def Let_def blur_example
  by (simp add: imageToPixels_def pixelsToImage_def oversharpenData_def bindE_def flatSkia_ok
      Let_def upt_rec toUint8_def clamp_def)

theorem oversharpening_formula_witness:
  "step6_oversharpening flatSkia 1 \<lparr>width = 1, height = 1, pixels = [100, 100, 100, 255]\<rparr>
     = Inr \<lparr>width = 1, height = 1, pixels = [139, 139, 139, 255]\<rparr>
   \<and> applyGaussianBlur flatSkia \<lparr>width = 1, height = 1, pixels = [100, 100, 100, 255]\<rparr>
        (pilRadiusToSigma 1.5) = Inr \<lparr>width = 1, height = 1, pixels = [80, 80, 80, 80]\<rparr>
   \<and> (139 :: byte) = toUint8 (clamp (100 + (100 - 80) * 1.5 * (1.3 * 1)) 0 255)"
proof -
  from oversharpening_formula[OF step6_example] obtain blurred where
    b: "applyGaussianBlur flatSkia \<lparr>width = 1, height = 1, pixels = [100, 100, 100, 255]\<rparr>
          (pilRadiusToSigma 1.5) = Inr blurred"
    and f: "\<forall>i < length (pixels \<lparr>width = 1, height = 1, pixels = [100, 100, 100, 255 :: byte]\<rparr>).
          i < length (pixels blurred) \<longrightarrow>
          pixels \<lparr>width = 1, height = 1, pixels = [139, 139, 139, 255 :: byte]\<rparr> ! i
          = toUint8 (if i mod 4 = 3
               then real (unat (pixels \<lparr>width = 1, height = 1, pixels = [100, 100, 100, 255 :: byte]\<rparr> ! i))
               else clamp (real (unat (pixels \<lparr>width = 1, height = 1, pixels = [100, 100, 100, 255 :: byte]\<rparr> ! i))
                     + (real (unat (pixels \<lparr>width = 1, height = 1, pixels = [100, 100, 100, 255 :: byte]\<rparr> ! i))
                        - real (unat (pixels blurred ! i))) * 1.5 * (1.3 * 1)) 0 255)"
    by blast
  from b have bl: "blurred = \<lparr>width = 1, height = 1, pixels = [80, 80, 80, 80]\<rparr>"
    unfolding blur_example by simp
  from f[rule_format, of 0] have "(139 :: byte) = toUint8 (clamp (100 + (100 - 80) * 1.5 * (1.3 * 1)) 0 255)"
    unfolding bl by simp
  with step6_example blur_example show ?thesis by (intro conjI)
qed

text \<open>
  C7, as stated, fails. At intensity 1, a channel of value 100 whose blurred value is 80
  becomes 139 in the pipeline; the formula with the factor \<open>1.5 * intensity\<close> gives 130.
\<close>

theorem sharpening_amount_counterexample:
  "step6_oversharpening flatSkia 1 \<lparr>width = 1, height = 1, pixels = [100, 100, 100, 255]\<rparr>
     = Inr \<lparr>width = 1, height = 1, pixels = [139, 139, 139, 255]\<rparr>
   \<and> oversharpenData [100, 100, 100, 255] [80, 80, 80, 80] (1 * 1.3) = [139, 139, 139, 255]
   \<and> spec_sharpen 100 80 1 = 130 \<and> toUint8 (spec_sharpen 100 80 1) \<noteq> 139"
proof (intro conjI)
  show "step6_oversharpening flatSkia 1 \<lparr>width = 1, height = 1, pixels = [100, 100, 100, 255]\<rparr>
     = Inr \<lparr>width = 1, height = 1, pixels = [139, 139, 139, 255]\<rparr>"
    by (rule step6_example)
  show "oversharpenData [100, 100, 100, 255] [80, 80, 80, 80] (1 * 1.3) = [139, 139, 139, 255]"
    by (simp add: oversharpenData_def clamp_def upt_rec)
  show "spec_sharpen 100 80 1 = 130"
    by (simp add: spec_sharpen_def clamp_def)
  then show "toUint8 (spec_sharpen 100 80 1) \<noteq> 139"
    by (simp add: toUint8_def)
qed

section \<open>The initial downscale\<close>

lemma whiteImage_dims: "width (whiteImage w h) = w" "height (whiteImage w h) = h"
  by (simp_all add: whiteImage_def)

lemma step1_small:
  "width img * height img \<le> 2000000 \<Longrightarrow> step1_reduceResolution sk inten img = Inr img"
  by (simp add: step1_reduceResolution_def reduceResolution_small)

lemma step1_large:
  assumes "2000000 < width img * height img"
  shows "step1_reduceResolution sk inten img
         = drawImageToSurface sk img
             (round (real (width img) * spec_downscale_factor (width img) (height img) (0.02 * inten)))
             (round (real (height img) * spec_downscale_factor (width img) (height img) (0.02 * inten)))
             None"
  using assms
  by (simp add: step1_reduceResolution_def reduceResolution_def spec_downscale_factor_def Let_def
      mult.commute)

lemma downscale_factor_le_1:
  assumes "2000000 < w * h" "0 \<le> inten"
  shows "spec_downscale_factor w h (0.02 * inten) \<le> 1"
proof -
  have p: "2000000 < real (w * h)" using assms(1) by linarith
  then have pos: "0 < real (w * h)" by linarith
  have "2000000 / real (w * h) \<le> 1"
    by (simp only: divide_le_eq_1_pos[OF pos]) (use p in linarith)
  then have "sqrt (2000000 / real (w * h)) \<le> 1"
    by (simp del: of_nat_mult)
  then have "0 \<le> (1 - sqrt (2000000 / real (w * h))) * (0.02 * inten)"
    using assms(2) by (intro mult_nonneg_nonneg) auto
  then show ?thesis unfolding spec_downscale_factor_def by linarith
qed

lemma round_scaled_le:
  assumes "f \<le> 1"
  shows "round (real n * f) \<le> int n"
proof -
  have "real n * f \<le> real n" using assms by (simp add: mult_left_le)
  then have "round (real n * f) \<le> round (real n)" by (rule round_mono)
  then show ?thesis by simp
qed

lemma sqrt_sixth: "0.4082 < sqrt (1 / 6)" "sqrt (1 / 6) < 0.4083"
  by (rule real_less_rsqrt, simp add: power2_eq_square) (rule real_less_lsqrt, simp_all add: power2_eq_square)

lemma factor_4000_3000:
  "spec_downscale_factor 4000 3000 x = 1 - (1 - sqrt (1 / 6)) * x"
proof -
  have "(2000000::real) / real (4000 * 3000) = 1 / 6" by simp
  then show ?thesis unfolding spec_downscale_factor_def by (simp only:)
qed

lemma factor_4000_2000:
  "spec_downscale_factor 4000 2000 x = 1 - x / 2"
proof -
  have "(2000000::real) / real (4000 * 2000) = (1 / 2)\<^sup>2" by (simp add: power2_eq_square)
  then have "sqrt ((2000000::real) / real (4000 * 2000)) = 1 / 2"
    by (simp only: real_sqrt_abs)
  then show ?thesis unfolding spec_downscale_factor_def by (simp only:) (simp add: algebra_simps)
qed

lemma rounds_general:
  fixes s :: real
  assumes "0.4082 < s" "s < 0.4083"
  shows "round (4000 * (1 - (1 - s) * (0.02 * 1))) = 3953"
    and "round (3000 * (1 - (1 - s) * (0.02 * 1))) = 2964"
    and "round (4000 * (1 - (1 - s) * 1)) = 1633"
    and "round (3000 * (1 - (1 - s) * 1)) = 1225"
proof -
  show "round (4000 * (1 - (1 - s) * (0.02 * 1))) = 3953"
    by (rule round_unique; (use assms in \<open>simp add: field_simps\<close>))
  show "round (3000 * (1 - (1 - s) * (0.02 * 1))) = 2964"
    by (rule round_unique; (use assms in \<open>simp add: field_simps\<close>))
  show "round (4000 * (1 - (1 - s) * 1)) = 1633"
    by (rule round_unique; (use assms in \<open>simp add: field_simps\<close>))
  show "round (3000 * (1 - (1 - s) * 1)) = 1225"
    by (rule round_unique; (use assms in \<open>simp add: field_simps\<close>))
qed

lemma rounds_4000_3000:
  "round (4000 * spec_downscale_factor 4000 3000 (0.02 * 1)) = 3953"
  "round (3000 * spec_downscale_factor 4000 3000 (0.02 * 1)) = 2964"
  "round (4000 * spec_downscale_factor 4000 3000 1) = 1633"
  "round (3000 * spec_downscale_factor 4000 3000 1) = 1225"
  unfolding factor_4000_3000 by (rule rounds_general[OF sqrt_sixth])+

lemma step1_flat:
  assumes "2000000 < w * h"
  shows "map_sum id (\<lambda>i. (width i, height i)) (step1_reduceResolution flatSkia inten (whiteImage w h))
    = (let f = spec_downscale_factor w h (0.02 * inten);
           newW = round (real w * f); newH = round (real h * f)
       in if newW < 0 \<or> newH < 0 then Inl (SurfaceFailed newW newH) else Inr (nat newW, nat newH))"
  unfolding step1_large[of "whiteImage w h", unfolded whiteImage_dims, OF assms]
  by (simp add: drawImageToSurface_def makeSurface_def bindE_def flatSkia_ok Let_def
      makeImageSnapshot_def)

lemma big: "(2000000::nat) < 4000 * 3000" "(2000000::nat) < 4000 * 2000"
  by simp_all

lemma rounds_4000_2000:
  "round (4000 * spec_downscale_factor 4000 2000 (0.02 * 1)) = 3960"
  "round (2000 * spec_downscale_factor 4000 2000 (0.02 * 1)) = 1980"
  "round (4000 * spec_downscale_factor 4000 2000 (0.02 * - 50)) = 6000"
  "round (2000 * spec_downscale_factor 4000 2000 (0.02 * - 50)) = 3000"
  unfolding factor_4000_2000 by simp_all

lemma step1_4000_3000:
  "map_sum id (\<lambda>i. (width i, height i)) (step1_reduceResolution flatSkia 1 (whiteImage 4000 3000))
     = Inr (3953, 2964)"
  unfolding step1_flat[OF big(1)] Let_def of_nat_numeral rounds_4000_3000
  by simp

lemma step1_4000_2000:
  "map_sum id (\<lambda>i. (width i, height i)) (step1_reduceResolution flatSkia 1 (whiteImage 4000 2000))
     = Inr (3960, 1980)"
  "map_sum id (\<lambda>i. (width i, height i)) (step1_reduceResolution flatSkia (- 50) (whiteImage 4000 2000))
     = Inr (6000, 3000)"
  unfolding step1_flat[OF big(2)] Let_def of_nat_numeral rounds_4000_2000
  by simp_all

text \<open>
  C3, as amended. The pipeline calls \<^verbatim>\<open>reduceResolution\<close> with \<open>intensity * 0.02\<close>. A
  source of at most 2,000,000 pixels is returned as it is. A larger source of \<open>w\<close> by \<open>h\<close>
  pixels is drawn onto a surface of \<open>round (w * f)\<close> by \<open>round (h * f)\<close> pixels, where
  \<open>f = 1 - (1 - s) * (0.02 * intensity)\<close> and \<open>s = sqrt (2000000 / (w * h))\<close>; an image that
  the step returns has these dimensions; for a non-negative intensity neither dimension
  is larger than the source's. A source of 4000 by 3000 pixels at intensity 1 is drawn at
  3953 by 2964 pixels.
\<close>

theorem initial_downscale:
  "(width img * height img \<le> 2000000 \<longrightarrow> step1_reduceResolution sk inten img = Inr img)
   \<and> (2000000 < width img * height img \<longrightarrow>
        step1_reduceResolution sk inten img
          = drawImageToSurface sk img
              (round (real (width img) * spec_downscale_factor (width img) (height img) (0.02 * inten)))
              (round (real (height img) * spec_downscale_factor (width img) (height img) (0.02 * inten)))
              None
        \<and> (\<forall>out. step1_reduceResolution sk inten img = Inr out \<longrightarrow>
              width out = nat (round (real (width img)
                                * spec_downscale_factor (width img) (height img) (0.02 * inten)))
              \<and> height out = nat (round (real (height img)
                                * spec_downscale_factor (width img) (height img) (0.02 * inten))))
        \<and> (0 \<le> inten \<longrightarrow>
              round (real (width img) * spec_downscale_factor (width img) (height img) (0.02 * inten))
                \<le> int (width img)
              \<and> round (real (height img) * spec_downscale_factor (width img) (height img) (0.02 * inten))
                \<le> int (height img)))
   \<and> round (4000 * spec_downscale_factor 4000 3000 (0.02 * 1)) = 3953
   \<and> round (3000 * spec_downscale_factor 4000 3000 (0.02 * 1)) = 2964"
proof (intro conjI impI allI)
  show "width img * height img \<le> 2000000 \<Longrightarrow> step1_reduceResolution sk inten img = Inr img"
    by (rule step1_small)
next
  assume l: "2000000 < width img * height img"
  show e: "step1_reduceResolution sk inten img
          = drawImageToSurface sk img
              (round (real (width img) * spec_downscale_factor (width img) (height img) (0.02 * inten)))
              (round (real (height img) * spec_downscale_factor (width img) (height img) (0.02 * inten)))
              None"
    by (rule step1_large[OF l])
  { fix out assume "step1_reduceResolution sk inten img = Inr out"
    then have d: "width out = nat (round (real (width img)
                                * spec_downscale_factor (width img) (height img) (0.02 * inten)))
              \<and> height out = nat (round (real (height img)
                                * spec_downscale_factor (width img) (height img) (0.02 * inten)))"
      unfolding e by (rule drawImageToSurface_dims)
    from d show "width out = nat (round (real (width img)
                                * spec_downscale_factor (width img) (height img) (0.02 * inten)))" ..
    from d show "height out = nat (round (real (height img)
                                * spec_downscale_factor (width img) (height img) (0.02 * inten)))" ..
  }
  { assume i: "0 \<le> inten"
    show "round (real (width img) * spec_downscale_factor (width img) (height img) (0.02 * inten))
                \<le> int (width img)"
      by (rule round_scaled_le[OF downscale_factor_le_1[OF l i]])
    show "round (real (height img) * spec_downscale_factor (width img) (height img) (0.02 * inten))
                \<le> int (height img)"
      by (rule round_scaled_le[OF downscale_factor_le_1[OF l i]])
  }
next
  show "round (4000 * spec_downscale_factor 4000 3000 (0.02 * 1)) = 3953"
    by (rule rounds_4000_3000)
  show "round (3000 * spec_downscale_factor 4000 3000 (0.02 * 1)) = 2964"
    by (rule rounds_4000_3000)
qed

theorem initial_downscale_witness:
  "step1_reduceResolution flatSkia 1 (whiteImage 1000 2000) = Inr (whiteImage 1000 2000)
   \<and> step1_reduceResolution flatSkia 1 (whiteImage 4000 2000)
     = drawImageToSurface flatSkia (whiteImage 4000 2000) 3960 1980 None
   \<and> (3960 :: int) \<le> 4000 \<and> (1980 :: int) \<le> 2000"
proof -
  have small: "width (whiteImage 1000 2000) * height (whiteImage 1000 2000) \<le> 2000000"
    by (simp add: whiteImage_dims)
  have large: "2000000 < width (whiteImage 4000 2000) * height (whiteImage 4000 2000)"
    by (simp add: whiteImage_dims)
  from initial_downscale[of "whiteImage 1000 2000" flatSkia 1] small
  have a: "step1_reduceResolution flatSkia 1 (whiteImage 1000 2000) = Inr (whiteImage 1000 2000)"
    by blast
  from initial_downscale[of "whiteImage 4000 2000" flatSkia 1] large
  have b: "step1_reduceResolution flatSkia 1 (whiteImage 4000 2000)
     = drawImageToSurface flatSkia (whiteImage 4000 2000) 3960 1980 None"
    unfolding whiteImage_dims of_nat_numeral rounds_4000_2000 by blast
  from a b show ?thesis by simp
qed

text \<open>
  C3, as stated, fails. At intensity 1 the pipeline resamples a 4000 by 3000 image to 3953
  by 2964 pixels, more than 2,000,000; the factor \<open>1 - (1 - s) * intensity\<close> would give 1633
  by 1225. At intensity -50 a 4000 by 2000 image is enlarged to 6000 by 3000.
\<close>

theorem initial_downscale_counterexample:
  "map_sum id (\<lambda>i. (width i, height i)) (step1_reduceResolution flatSkia 1 (whiteImage 4000 3000))
     = Inr (3953, 2964)
   \<and> (round (4000 * spec_downscale_factor 4000 3000 1),
      round (3000 * spec_downscale_factor 4000 3000 1)) = (1633, 1225)
   \<and> (2000000 :: nat) < 3953 * 2964
   \<and> map_sum id (\<lambda>i. (width i, height i))
        (step1_reduceResolution flatSkia (- 50) (whiteImage 4000 2000)) = Inr (6000, 3000)"
proof (intro conjI)
  show "map_sum id (\<lambda>i. (width i, height i)) (step1_reduceResolution flatSkia 1 (whiteImage 4000 3000))
     = Inr (3953, 2964)"
    by (rule step1_4000_3000)
  show "(round (4000 * spec_downscale_factor 4000 3000 1),
      round (3000 * spec_downscale_factor 4000 3000 1)) = (1633, 1225)"
    unfolding rounds_4000_3000 by (rule refl)
  show "(2000000 :: nat) < 3953 * 2964" by simp
  show "map_sum id (\<lambda>i. (width i, height i))
        (step1_reduceResolution flatSkia (- 50) (whiteImage 4000 2000)) = Inr (6000, 3000)"
    by (rule step1_4000_2000)
qed

section \<open>Pixel loops, pixel by pixel\<close>

text \<open>
  The two nested loops visit the pixels in the order of their index \<open>y * w + x\<close>, and a
  loop whose body writes only into the four values of its own pixel, from values of that
  pixel, computes for every pixel what the body computes on the initial buffer.
\<close>

lemma fold_row:
  "fold (\<lambda>x. body x y) [0..<w] s = fold (\<lambda>p. body (p mod w) (p div w)) [y * w..<y * w + w] s"
proof -
  have "[y * w..<y * w + w] = map (\<lambda>x. x + y * w) [0..<w]"
    by (simp add: map_add_upt add.commute)
  moreover have "fold (\<lambda>p. body (p mod w) (p div w)) (map (\<lambda>x. x + y * w) [0..<w]) s
      = fold (\<lambda>x. body x y) [0..<w] s"
    unfolding fold_map by (rule fold_cong) (auto simp: comp_def)
  ultimately show ?thesis by simp
qed

lemma forPixels_flat:
  "forPixels w h body s = fold (\<lambda>p. body (p mod w) (p div w)) [0..<h * w] s"
proof (induction h arbitrary: s)
  case 0
  then show ?case by (simp add: forPixels_def)
next
  case (Suc h)
  have "[0..<Suc h * w] = [0..<h * w] @ [h * w..<h * w + w]"
    using upt_add_eq_append[of 0 "h * w" w] by (simp add: add.commute)
  moreover have "forPixels w (Suc h) body s = fold (\<lambda>x. body x h) [0..<w] (forPixels w h body s)"
    by (simp add: forPixels_def)
  ultimately show ?case
    unfolding Suc fold_row[of body h w] by simp
qed

lemma fold_blocks_upto:
  fixes step :: "nat \<Rightarrow> 'a list \<Rightarrow> 'a list"
  assumes L: "\<And>p s. p < n \<Longrightarrow> length (step p s) = length s"
    and F: "\<And>p s i. p < n \<Longrightarrow> i < length s \<Longrightarrow> i div 4 \<noteq> p \<Longrightarrow> step p s ! i = s ! i"
    and D: "\<And>p s s' i. p < n \<Longrightarrow> length s = length s' \<Longrightarrow> i < length s \<Longrightarrow> i div 4 = p \<Longrightarrow>
              (\<forall>j<length s. j div 4 = p \<longrightarrow> s ! j = s' ! j) \<Longrightarrow> step p s ! i = step p s' ! i"
  shows "m \<le> n \<Longrightarrow> length (fold step [0..<m] s) = length s
    \<and> (\<forall>i<length s. fold step [0..<m] s ! i = (if i div 4 < m then step (i div 4) s ! i else s ! i))"
proof (induction m)
  case 0
  then show ?case by simp
next
  case (Suc m)
  let ?t = "fold step [0..<m] s"
  have mn: "m < n" using Suc.prems by simp
  have IH1: "length ?t = length s"
    using Suc.IH mn by simp
  have IH2: "?t ! i = (if i div 4 < m then step (i div 4) s ! i else s ! i)" if "i < length s" for i
    using Suc.IH mn that by simp
  have f: "fold step [0..<Suc m] s = step m ?t" by simp
  have len: "length (step m ?t) = length s"
    using L[OF mn, of ?t] IH1 by simp
  have nth: "step m ?t ! i = (if i div 4 < Suc m then step (i div 4) s ! i else s ! i)"
    if i: "i < length s" for i
  proof (cases "i div 4 = m")
    case True
    have agree: "\<forall>j<length ?t. j div 4 = m \<longrightarrow> ?t ! j = s ! j"
      using IH1 IH2 by simp
    have "step m ?t ! i = step m s ! i"
      by (rule D[OF mn IH1 _ True agree]) (simp add: IH1 i)
    then show ?thesis using True by simp
  next
    case False
    have "step m ?t ! i = ?t ! i"
      by (rule F[OF mn _ False]) (simp add: IH1 i)
    also have "\<dots> = (if i div 4 < m then step (i div 4) s ! i else s ! i)"
      by (rule IH2[OF i])
    also have "\<dots> = (if i div 4 < Suc m then step (i div 4) s ! i else s ! i)"
      using False by (simp add: less_Suc_eq)
    finally show ?thesis .
  qed
  show ?case unfolding f using len nth by blast
qed

lemma pixel_index:
  fixes x y w :: nat
  assumes "x < w"
  shows "(y * w + x) mod w = x" and "(y * w + x) div w = y"
proof -
  show "(y * w + x) mod w = x" using assms by simp
  show "(y * w + x) div w = y" using assms by simp
qed

lemma pixel_index_lt: "x < w \<Longrightarrow> y < h \<Longrightarrow> y * w + x < h * (w::nat)"
proof -
  assume a: "x < w" "y < h"
  then have "y * w + x < y * w + w" by simp
  also have "\<dots> = (Suc y) * w" by simp
  also have "\<dots> \<le> h * w" using a(2) by (intro mult_le_mono1) simp
  finally show ?thesis .
qed


text \<open>The value that the aberration stage writes into the red and the blue channel.\<close>

lemma aberrationPixel_length: "length (aberrationPixel orig s bo bs w h x y d) = length d"
  by (simp add: aberrationPixel_def Let_def)

lemma aberrationPixel_nth:
  assumes "i < length d"
  shows "aberrationPixel orig s bo bs w h x y d ! i
    = (if i = (y * w + x) * 4 + 2 \<and> int y + s < int h \<and> int x + s < int w
       then clamp (orig ! ((y * w + x) * 4 + 2) * bo
                   + orig ! ((nat (int y + s) * w + nat (int x + s)) * 4 + 2) * bs) 0 255
       else if i = (y * w + x) * 4 \<and> int y - s \<ge> 0 \<and> int x - s \<ge> 0
       then clamp (orig ! ((y * w + x) * 4) * bo
                   + orig ! ((nat (int y - s) * w + nat (int x - s)) * 4) * bs) 0 255
       else d ! i)"
  using assms by (auto simp: aberrationPixel_def Let_def nth_update_if)


lemma addChromaticAberration_noop: "\<lfloor>2 * inten\<rfloor> < 1 \<Longrightarrow> addChromaticAberration d w h inten = d"
  by (simp add: addChromaticAberration_def)

lemma addChromaticAberration_loop:
  assumes "1 \<le> \<lfloor>2 * inten\<rfloor>"
  shows "length (addChromaticAberration d w h inten) = length d"
    and "i < length d \<Longrightarrow> addChromaticAberration d w h inten ! i
      = (if i div 4 < h * w
         then aberrationPixel d \<lfloor>2 * inten\<rfloor> (1 - 0.5 * inten) (0.5 * inten) w h
                ((i div 4) mod w) ((i div 4) div w) d ! i
         else d ! i)"
proof -
  let ?step = "\<lambda>p. aberrationPixel d \<lfloor>2 * inten\<rfloor> (1 - 0.5 * inten) (0.5 * inten) w h (p mod w) (p div w)"
  have e: "addChromaticAberration d w h inten = fold ?step [0..<h * w] d"
    using assms by (simp add: addChromaticAberration_def Let_def forPixels_flat)
  have pw: "(p div w * w + p mod w) = p" for p by simp
  have F: "?step p s ! i = s ! i" if "i < length s" "i div 4 \<noteq> p" for p s i
  proof -
    have "i \<noteq> p * 4" "i \<noteq> p * 4 + 2" using that(2) by auto
    then show ?thesis using that(1) by (simp add: aberrationPixel_nth pw)
  qed
  have D: "?step p s ! i = ?step p s' ! i"
    if "length s = length s'" "i < length s" "\<forall>j<length s. j div 4 = p \<longrightarrow> s ! j = s' ! j" "i div 4 = p"
    for p s s' i
    using that by (simp add: aberrationPixel_nth)
  have r: "length (fold ?step [0..<h * w] d) = length d
    \<and> (\<forall>i<length d. fold ?step [0..<h * w] d ! i = (if i div 4 < h * w then ?step (i div 4) d ! i else d ! i))"
    apply (rule fold_blocks_upto[where n = "h * w"])
    subgoal by (rule aberrationPixel_length)
    subgoal by (rule F)
    subgoal by (rule D)
    subgoal by simp
    done
  show "length (addChromaticAberration d w h inten) = length d"
    unfolding e using r by blast
  show "i < length d \<Longrightarrow> addChromaticAberration d w h inten ! i
      = (if i div 4 < h * w then ?step (i div 4) d ! i else d ! i)"
    unfolding e using r by blast
qed

lemma addChromaticAberration_pixel:
  assumes "1 \<le> \<lfloor>2 * inten\<rfloor>" "x < w" "y < h" "(y * w + x) * 4 + c < length d" "c < 4"
  shows "addChromaticAberration d w h inten ! ((y * w + x) * 4 + c)
      = aberrationPixel d \<lfloor>2 * inten\<rfloor> (1 - 0.5 * inten) (0.5 * inten) w h x y d ! ((y * w + x) * 4 + c)"
proof -
  have dv: "((y * w + x) * 4 + c) div 4 = y * w + x" using assms(5) by simp
  show ?thesis
    unfolding addChromaticAberration_loop(2)[OF assms(1,4)] dv pixel_index[OF assms(2)]
    using pixel_index_lt[OF assms(2,3)] by simp
qed


lemma blend_in_range:
  fixes a b t :: real
  assumes "0 \<le> a" "a \<le> 255" "0 \<le> b" "b \<le> 255" "0 \<le> t" "t \<le> 1"
  shows "clamp (a * (1 - t) + b * t) 0 255 = a * (1 - t) + b * t"
proof -
  have "0 \<le> a * (1 - t)" "0 \<le> b * t" using assms by simp_all
  moreover have "a * (1 - t) \<le> 255 * (1 - t)"
    by (rule mult_right_mono) (use assms in simp_all)
  moreover have "b * t \<le> 255 * t"
    by (rule mult_right_mono) (use assms in simp_all)
  ultimately have "0 \<le> a * (1 - t) + b * t" "a * (1 - t) + b * t \<le> 255"
    by (simp_all add: algebra_simps)
  then show ?thesis by (simp add: clamp_def)
qed

lemma exampleBuffer_facts: "length exampleBuffer = 2 * 2 * 4" "inRange exampleBuffer"
  by (simp_all add: exampleBuffer_def inRange_def)

section \<open>Chromatic aberration\<close>

text \<open>
  C8. The stage uses the shift \<open>floor (2 * intensity)\<close>. With a shift below 1 it returns
  the buffer as it is. With a shift of at least 1, in a buffer of \<open>w * h\<close> pixels, the red
  value of the pixel \<open>(x, y)\<close> becomes the clamped blend of the original red value (weight
  \<open>1 - 0.5 * intensity\<close>) and the original red value of the pixel \<open>(x - shift, y - shift)\<close>
  (weight \<open>0.5 * intensity\<close>) when that pixel is inside the image, and stays as it is
  otherwise; the blue value likewise with the pixel \<open>(x + shift, y + shift)\<close>. For a buffer
  with values from 0 to 255 and an intensity of at most 2 the clamp changes nothing: the
  new value is the blend.
\<close>

theorem chromatic_aberration_formula:
  assumes "length d = w * h * 4" "x < w" "y < h"
  shows "(\<lfloor>2 * inten\<rfloor> < 1 \<longrightarrow> addChromaticAberration d w h inten = d)
    \<and> (1 \<le> \<lfloor>2 * inten\<rfloor> \<longrightarrow>
         addChromaticAberration d w h inten ! ((y * w + x) * 4)
           = (if 0 \<le> int x - \<lfloor>2 * inten\<rfloor> \<and> 0 \<le> int y - \<lfloor>2 * inten\<rfloor>
              then clamp (d ! ((y * w + x) * 4) * (1 - 0.5 * inten)
                          + d ! ((nat (int y - \<lfloor>2 * inten\<rfloor>) * w + nat (int x - \<lfloor>2 * inten\<rfloor>)) * 4)
                            * (0.5 * inten)) 0 255
              else d ! ((y * w + x) * 4))
         \<and> addChromaticAberration d w h inten ! ((y * w + x) * 4 + 2)
           = (if int x + \<lfloor>2 * inten\<rfloor> < int w \<and> int y + \<lfloor>2 * inten\<rfloor> < int h
              then clamp (d ! ((y * w + x) * 4 + 2) * (1 - 0.5 * inten)
                          + d ! ((nat (int y + \<lfloor>2 * inten\<rfloor>) * w + nat (int x + \<lfloor>2 * inten\<rfloor>)) * 4 + 2)
                            * (0.5 * inten)) 0 255
              else d ! ((y * w + x) * 4 + 2)))
    \<and> (1 \<le> \<lfloor>2 * inten\<rfloor> \<and> inten \<le> 2 \<and> inRange d \<longrightarrow>
         addChromaticAberration d w h inten ! ((y * w + x) * 4)
           = (if 0 \<le> int x - \<lfloor>2 * inten\<rfloor> \<and> 0 \<le> int y - \<lfloor>2 * inten\<rfloor>
              then d ! ((y * w + x) * 4) * (1 - 0.5 * inten)
                   + d ! ((nat (int y - \<lfloor>2 * inten\<rfloor>) * w + nat (int x - \<lfloor>2 * inten\<rfloor>)) * 4)
                     * (0.5 * inten)
              else d ! ((y * w + x) * 4))
         \<and> addChromaticAberration d w h inten ! ((y * w + x) * 4 + 2)
           = (if int x + \<lfloor>2 * inten\<rfloor> < int w \<and> int y + \<lfloor>2 * inten\<rfloor> < int h
              then d ! ((y * w + x) * 4 + 2) * (1 - 0.5 * inten)
                   + d ! ((nat (int y + \<lfloor>2 * inten\<rfloor>) * w + nat (int x + \<lfloor>2 * inten\<rfloor>)) * 4 + 2)
                     * (0.5 * inten)
              else d ! ((y * w + x) * 4 + 2)))"
proof -
  have lt: "y * w + x < h * w" by (rule pixel_index_lt[OF assms(2,3)])
  then have b: "(y * w + x) * 4 + c < length d" if "c < 4" for c
    using that assms(1) by (simp add: mult.commute)
  have R: "addChromaticAberration d w h inten ! ((y * w + x) * 4)
           = (if 0 \<le> int x - \<lfloor>2 * inten\<rfloor> \<and> 0 \<le> int y - \<lfloor>2 * inten\<rfloor>
              then clamp (d ! ((y * w + x) * 4) * (1 - 0.5 * inten)
                          + d ! ((nat (int y - \<lfloor>2 * inten\<rfloor>) * w + nat (int x - \<lfloor>2 * inten\<rfloor>)) * 4)
                            * (0.5 * inten)) 0 255
              else d ! ((y * w + x) * 4))" if s: "1 \<le> \<lfloor>2 * inten\<rfloor>"
    using addChromaticAberration_pixel[OF s assms(2,3) b[of 0], simplified] b[of 0]
    by (simp add: aberrationPixel_nth)
  have B: "addChromaticAberration d w h inten ! ((y * w + x) * 4 + 2)
           = (if int x + \<lfloor>2 * inten\<rfloor> < int w \<and> int y + \<lfloor>2 * inten\<rfloor> < int h
              then clamp (d ! ((y * w + x) * 4 + 2) * (1 - 0.5 * inten)
                          + d ! ((nat (int y + \<lfloor>2 * inten\<rfloor>) * w + nat (int x + \<lfloor>2 * inten\<rfloor>)) * 4 + 2)
                            * (0.5 * inten)) 0 255
              else d ! ((y * w + x) * 4 + 2))" if s: "1 \<le> \<lfloor>2 * inten\<rfloor>"
    using addChromaticAberration_pixel[OF s assms(2,3) b[of 2]] b[of 2]
    by (simp add: aberrationPixel_nth)
  have U: "clamp (d ! i * (1 - 0.5 * inten) + d ! j * (0.5 * inten)) 0 255
           = d ! i * (1 - 0.5 * inten) + d ! j * (0.5 * inten)"
    if "1 \<le> \<lfloor>2 * inten\<rfloor>" "inten \<le> 2" "inRange d" "i < length d" "j < length d" for i j
  proof -
    have "1 \<le> 2 * inten" using that(1) by linarith
    then have t: "0 \<le> 0.5 * inten" "0.5 * inten \<le> 1" using that(2) by simp_all
    have "0 \<le> d ! i" "d ! i \<le> 255" "0 \<le> d ! j" "d ! j \<le> 255"
      using that(3,4,5) by (simp_all add: inRange_nth)
    from blend_in_range[OF this t] show ?thesis .
  qed
  have srcR: "(nat (int y - s) * w + nat (int x - s)) * 4 < length d"
    if "1 \<le> s" "0 \<le> int x - s" "0 \<le> int y - s" for s
  proof -
    have "nat (int x - s) < w" "nat (int y - s) < h" using that assms(2,3) by linarith+
    from pixel_index_lt[OF this] show ?thesis using assms(1) by (simp add: mult.commute)
  qed
  have srcB: "(nat (int y + s) * w + nat (int x + s)) * 4 + 2 < length d"
    if "1 \<le> s" "int x + s < int w" "int y + s < int h" for s
  proof -
    have "nat (int x + s) < w" "nat (int y + s) < h" using that by linarith+
    from pixel_index_lt[OF this] show ?thesis using assms(1) by (simp add: mult.commute)
  qed
  show ?thesis
  proof (intro conjI impI)
    show "\<lfloor>2 * inten\<rfloor> < 1 \<Longrightarrow> addChromaticAberration d w h inten = d"
      by (rule addChromaticAberration_noop)
  next
    assume s: "1 \<le> \<lfloor>2 * inten\<rfloor>"
    show "addChromaticAberration d w h inten ! ((y * w + x) * 4)
           = (if 0 \<le> int x - \<lfloor>2 * inten\<rfloor> \<and> 0 \<le> int y - \<lfloor>2 * inten\<rfloor>
              then clamp (d ! ((y * w + x) * 4) * (1 - 0.5 * inten)
                          + d ! ((nat (int y - \<lfloor>2 * inten\<rfloor>) * w + nat (int x - \<lfloor>2 * inten\<rfloor>)) * 4)
                            * (0.5 * inten)) 0 255
              else d ! ((y * w + x) * 4))"
      by (rule R[OF s])
    show "addChromaticAberration d w h inten ! ((y * w + x) * 4 + 2)
           = (if int x + \<lfloor>2 * inten\<rfloor> < int w \<and> int y + \<lfloor>2 * inten\<rfloor> < int h
              then clamp (d ! ((y * w + x) * 4 + 2) * (1 - 0.5 * inten)
                          + d ! ((nat (int y + \<lfloor>2 * inten\<rfloor>) * w + nat (int x + \<lfloor>2 * inten\<rfloor>)) * 4 + 2)
                            * (0.5 * inten)) 0 255
              else d ! ((y * w + x) * 4 + 2))"
      by (rule B[OF s])
  next
    assume a: "1 \<le> \<lfloor>2 * inten\<rfloor> \<and> inten \<le> 2 \<and> inRange d"
    then have s: "1 \<le> \<lfloor>2 * inten\<rfloor>" and i2: "inten \<le> 2" and r: "inRange d" by simp_all
    show "addChromaticAberration d w h inten ! ((y * w + x) * 4)
           = (if 0 \<le> int x - \<lfloor>2 * inten\<rfloor> \<and> 0 \<le> int y - \<lfloor>2 * inten\<rfloor>
              then d ! ((y * w + x) * 4) * (1 - 0.5 * inten)
                   + d ! ((nat (int y - \<lfloor>2 * inten\<rfloor>) * w + nat (int x - \<lfloor>2 * inten\<rfloor>)) * 4)
                     * (0.5 * inten)
              else d ! ((y * w + x) * 4))"
      unfolding R[OF s] using U[OF s i2 r _ srcR[OF s]] b[of 0] by simp
    show "addChromaticAberration d w h inten ! ((y * w + x) * 4 + 2)
           = (if int x + \<lfloor>2 * inten\<rfloor> < int w \<and> int y + \<lfloor>2 * inten\<rfloor> < int h
              then d ! ((y * w + x) * 4 + 2) * (1 - 0.5 * inten)
                   + d ! ((nat (int y + \<lfloor>2 * inten\<rfloor>) * w + nat (int x + \<lfloor>2 * inten\<rfloor>)) * 4 + 2)
                     * (0.5 * inten)
              else d ! ((y * w + x) * 4 + 2))"
      unfolding B[OF s] using U[OF s i2 r _ srcB[OF s]] b[of 2] by simp
  qed
qed


theorem chromatic_aberration_formula_witness:
  "length exampleBuffer = 2 * 2 * 4 \<and> inRange exampleBuffer
   \<and> addChromaticAberration exampleBuffer 2 2 0.5 ! 12 = 77.5
   \<and> addChromaticAberration exampleBuffer 2 2 0.5 ! 14 = 120"
proof -
  have f: "\<lfloor>2 * (0.5 :: real)\<rfloor> = 1" by simp
  have "addChromaticAberration exampleBuffer 2 2 0.5 ! 12 = 77.5
   \<and> addChromaticAberration exampleBuffer 2 2 0.5 ! 14 = 120"
    using chromatic_aberration_formula[OF exampleBuffer_facts(1), of 1 1 "0.5"] exampleBuffer_facts(2)
    unfolding f by (simp add: exampleBuffer_def)
  then show ?thesis using exampleBuffer_facts by simp
qed

text \<open>
  C10. For every buffer and every intensity the stage keeps the length of the buffer and
  leaves every green and every alpha value as it is; it leaves the red value of the pixel
  \<open>(x, y)\<close> as it is when \<open>(x - shift, y - shift)\<close> is outside the image, and the blue value
  when \<open>(x + shift, y + shift)\<close> is outside the image, with \<open>shift = floor (2 * intensity)\<close>.
\<close>

theorem chromatic_aberration_frame:
  "length (addChromaticAberration d w h inten) = length d
   \<and> (i < length d \<and> (i mod 4 = 1 \<or> i mod 4 = 3) \<longrightarrow>
        addChromaticAberration d w h inten ! i = d ! i)
   \<and> (x < w \<and> y < h \<and> (y * w + x) * 4 < length d
        \<and> (int x - \<lfloor>2 * inten\<rfloor> < 0 \<or> int y - \<lfloor>2 * inten\<rfloor> < 0
            \<or> int w \<le> int x - \<lfloor>2 * inten\<rfloor> \<or> int h \<le> int y - \<lfloor>2 * inten\<rfloor>) \<longrightarrow>
        addChromaticAberration d w h inten ! ((y * w + x) * 4) = d ! ((y * w + x) * 4))
   \<and> (x < w \<and> y < h \<and> (y * w + x) * 4 + 2 < length d
        \<and> (int x + \<lfloor>2 * inten\<rfloor> < 0 \<or> int y + \<lfloor>2 * inten\<rfloor> < 0
            \<or> int w \<le> int x + \<lfloor>2 * inten\<rfloor> \<or> int h \<le> int y + \<lfloor>2 * inten\<rfloor>) \<longrightarrow>
        addChromaticAberration d w h inten ! ((y * w + x) * 4 + 2) = d ! ((y * w + x) * 4 + 2))"
proof (cases "\<lfloor>2 * inten\<rfloor> < 1")
  case True
  then show ?thesis by (simp add: addChromaticAberration_noop)
next
  case False
  then have s: "1 \<le> \<lfloor>2 * inten\<rfloor>" by simp
  have GA: "addChromaticAberration d w h inten ! i = d ! i"
    if "i < length d" "i mod 4 = 1 \<or> i mod 4 = 3"
  proof -
    have "i \<noteq> k * 4" "i \<noteq> k * 4 + 2" for k using that(2) by presburger+
    then show ?thesis
      unfolding addChromaticAberration_loop(2)[OF s that(1)] using that(1)
      by (simp add: aberrationPixel_nth)
  qed
  have R: "addChromaticAberration d w h inten ! ((y * w + x) * 4) = d ! ((y * w + x) * 4)"
    if "x < w" "y < h" "(y * w + x) * 4 < length d"
       "int x - \<lfloor>2 * inten\<rfloor> < 0 \<or> int y - \<lfloor>2 * inten\<rfloor> < 0
            \<or> int w \<le> int x - \<lfloor>2 * inten\<rfloor> \<or> int h \<le> int y - \<lfloor>2 * inten\<rfloor>"
  proof -
    have n: "\<not> (int y - \<lfloor>2 * inten\<rfloor> \<ge> 0 \<and> int x - \<lfloor>2 * inten\<rfloor> \<ge> 0)"
      using that s by linarith
    show ?thesis
      using addChromaticAberration_pixel[OF s that(1,2), of 0 d] that(3) n
      by (auto simp: aberrationPixel_nth)
  qed
  have B: "addChromaticAberration d w h inten ! ((y * w + x) * 4 + 2) = d ! ((y * w + x) * 4 + 2)"
    if "x < w" "y < h" "(y * w + x) * 4 + 2 < length d"
       "int x + \<lfloor>2 * inten\<rfloor> < 0 \<or> int y + \<lfloor>2 * inten\<rfloor> < 0
            \<or> int w \<le> int x + \<lfloor>2 * inten\<rfloor> \<or> int h \<le> int y + \<lfloor>2 * inten\<rfloor>"
  proof -
    have n: "\<not> (int y + \<lfloor>2 * inten\<rfloor> < int h \<and> int x + \<lfloor>2 * inten\<rfloor> < int w)"
      using that s by linarith
    show ?thesis
      using addChromaticAberration_pixel[OF s that(1,2), of 2 d] that(3) n
      by (auto simp: aberrationPixel_nth)
  qed
  show ?thesis
    using addChromaticAberration_loop(1)[OF s] GA R B by blast
qed

theorem chromatic_aberration_frame_witness:
  "addChromaticAberration exampleBuffer 2 2 0.5 ! 13 = 110
   \<and> addChromaticAberration exampleBuffer 2 2 0.5 ! 15 = 255
   \<and> addChromaticAberration exampleBuffer 2 2 0.5 ! 0 = 10
   \<and> addChromaticAberration exampleBuffer 2 2 0.5 ! 14 = 120"
proof -
  have f: "\<lfloor>2 * (0.5 :: real)\<rfloor> = 1" by simp
  have g: "addChromaticAberration exampleBuffer 2 2 0.5 ! 13 = exampleBuffer ! 13"
    using chromatic_aberration_frame[of exampleBuffer 2 2 "0.5" 13] exampleBuffer_facts(1) by simp
  have a: "addChromaticAberration exampleBuffer 2 2 0.5 ! 15 = exampleBuffer ! 15"
    using chromatic_aberration_frame[of exampleBuffer 2 2 "0.5" 15] exampleBuffer_facts(1) by simp
  have r: "addChromaticAberration exampleBuffer 2 2 0.5 ! 0 = exampleBuffer ! 0"
    using chromatic_aberration_frame[of exampleBuffer 2 2 "0.5" 0 0 0] exampleBuffer_facts(1)
    unfolding f by simp
  have b: "addChromaticAberration exampleBuffer 2 2 0.5 ! 14 = exampleBuffer ! 14"
    using chromatic_aberration_frame[of exampleBuffer 2 2 "0.5" 0 1 1] exampleBuffer_facts(1)
    unfolding f by simp
  show ?thesis unfolding g a r b by (simp add: exampleBuffer_def)
qed

section \<open>The random source: what the output depends on\<close>

lemma readsPrefixI:
  assumes "\<And>rnd r rnd'. f rnd = Some (r, rnd') \<Longrightarrow>
     \<exists>n. rnd' = sdrop n rnd \<and> (\<forall>rnd2. stake n rnd2 = stake n rnd \<longrightarrow> f rnd2 = Some (r, sdrop n rnd2))"
  shows "readsPrefix f"
  using assms unfolding readsPrefix_def by blast

lemma readsPrefixD:
  assumes "readsPrefix f" "f rnd = Some (r, rnd')"
  shows "\<exists>n. rnd' = sdrop n rnd \<and> (\<forall>rnd2. stake n rnd2 = stake n rnd \<longrightarrow> f rnd2 = Some (r, sdrop n rnd2))"
  using assms unfolding readsPrefix_def by blast

lemma readsPrefix_return: "readsPrefix (\<lambda>rnd. Some (x, rnd))"
  unfolding readsPrefix_def
proof (intro allI impI)
  fix rnd rnd' :: "real stream" and r
  assume "Some (x, rnd) = Some (r, rnd')"
  then have "rnd' = sdrop 0 rnd \<and> (\<forall>rnd2. stake 0 rnd2 = stake 0 rnd \<longrightarrow> Some (x, rnd2) = Some (r, sdrop 0 rnd2))"
    by simp
  then show "\<exists>n. rnd' = sdrop n rnd \<and> (\<forall>rnd2. stake n rnd2 = stake n rnd \<longrightarrow> Some (x, rnd2) = Some (r, sdrop n rnd2))"
    by (rule exI)
qed

lemma readsPrefix_None: "readsPrefix (\<lambda>rnd. None)"
  by (rule readsPrefixI) simp

lemma stake_add_split:
  assumes "stake (m + n) s = stake (m + n) t"
  shows "stake m s = stake m t" and "stake n (sdrop m s) = stake n (sdrop m t)"
proof -
  have "stake m s @ stake n (sdrop m s) = stake m t @ stake n (sdrop m t)"
    using assms by (simp only: stake_add)
  then show "stake m s = stake m t" and "stake n (sdrop m s) = stake n (sdrop m t)"
    by (simp_all del: stake_add)
qed

lemma readsPrefix_bind:
  assumes f: "readsPrefix f" and g: "\<And>r. readsPrefix (g r)"
  shows "readsPrefix (\<lambda>rnd. case f rnd of None \<Rightarrow> None | Some (r, rnd1) \<Rightarrow> g r rnd1)"
proof (rule readsPrefixI)
  fix rnd r2 rnd'
  assume a: "(case f rnd of None \<Rightarrow> None | Some (r, rnd1) \<Rightarrow> g r rnd1) = Some (r2, rnd')"
  then obtain r rnd1 where f1: "f rnd = Some (r, rnd1)" and g1: "g r rnd1 = Some (r2, rnd')"
    by (auto split: option.splits)
  from readsPrefixD[OF f f1] obtain n1 where
    n1: "rnd1 = sdrop n1 rnd" "\<And>rnd2. stake n1 rnd2 = stake n1 rnd \<Longrightarrow> f rnd2 = Some (r, sdrop n1 rnd2)"
    by blast
  from readsPrefixD[OF g g1] obtain n2 where
    n2: "rnd' = sdrop n2 rnd1" "\<And>rnd2. stake n2 rnd2 = stake n2 rnd1 \<Longrightarrow> g r rnd2 = Some (r2, sdrop n2 rnd2)"
    by blast
  have "rnd' = sdrop (n1 + n2) rnd" using n1(1) n2(1) by simp
  moreover have "(case f rnd2 of None \<Rightarrow> None | Some (r, rnd1) \<Rightarrow> g r rnd1) = Some (r2, sdrop (n1 + n2) rnd2)"
    if "stake (n1 + n2) rnd2 = stake (n1 + n2) rnd" for rnd2
  proof -
    note s = stake_add_split[OF that]
    have "f rnd2 = Some (r, sdrop n1 rnd2)" by (rule n1(2)[OF s(1)])
    moreover have "g r (sdrop n1 rnd2) = Some (r2, sdrop n2 (sdrop n1 rnd2))"
      by (rule n2(2)) (simp only: s(2) n1(1))
    ultimately show ?thesis by simp
  qed
  ultimately show "\<exists>n. rnd' = sdrop n rnd \<and> (\<forall>rnd2. stake n rnd2 = stake n rnd \<longrightarrow>
      (case f rnd2 of None \<Rightarrow> None | Some (r, rnd1) \<Rightarrow> g r rnd1) = Some (r2, sdrop n rnd2))"
    by blast
qed

lemma drawNonzero_reads_aux:
  assumes "drawNonzero u0 rnd0 = Some y0"
  shows "\<exists>n. snd y0 = sdrop n rnd0
     \<and> (\<forall>rnd2. stake n rnd2 = stake n rnd0 \<longrightarrow> drawNonzero u0 rnd2 = Some (fst y0, sdrop n rnd2))"
proof (rule drawNonzero.raw_induct[where P = "\<lambda>u rnd y. \<exists>n. snd y = sdrop n rnd
     \<and> (\<forall>rnd2. stake n rnd2 = stake n rnd \<longrightarrow> drawNonzero u rnd2 = Some (fst y, sdrop n rnd2))",
     OF _ assms])
  fix rec :: "real \<Rightarrow> real stream \<Rightarrow> (real \<times> real stream) option" and u rnd y
  assume IH: "\<And>u rnd y. rec u rnd = Some y \<Longrightarrow> \<exists>n. snd y = sdrop n rnd
     \<and> (\<forall>rnd2. stake n rnd2 = stake n rnd \<longrightarrow> drawNonzero u rnd2 = Some (fst y, sdrop n rnd2))"
    and eq: "(if u = 0 then case Math_random rnd of (u', rnd') \<Rightarrow> rec u' rnd' else Some (u, rnd)) = Some y"
  show "\<exists>n. snd y = sdrop n rnd
     \<and> (\<forall>rnd2. stake n rnd2 = stake n rnd \<longrightarrow> drawNonzero u rnd2 = Some (fst y, sdrop n rnd2))"
  proof (cases "u = 0")
    case False
    with eq have y: "y = (u, rnd)" by simp
    have "drawNonzero u rnd2 = Some (u, rnd2)" for rnd2
      by (rule drawNonzero_nonzero[OF False])
    then show ?thesis unfolding y
      by (intro exI[of _ 0]) simp
  next
    case True
    with eq have r: "rec (shd rnd) (stl rnd) = Some y" by (simp add: Math_random_def)
    from IH[OF r] obtain n where
      n: "snd y = sdrop n (stl rnd)"
         "\<And>rnd2. stake n rnd2 = stake n (stl rnd) \<Longrightarrow> drawNonzero (shd rnd) rnd2 = Some (fst y, sdrop n rnd2)"
      by blast
    have "snd y = sdrop (Suc n) rnd" using n(1) by simp
    moreover have "drawNonzero u rnd2 = Some (fst y, sdrop (Suc n) rnd2)"
      if "stake (Suc n) rnd2 = stake (Suc n) rnd" for rnd2
    proof -
      from that have h: "shd rnd2 = shd rnd" and t: "stake n (stl rnd2) = stake n (stl rnd)" by simp_all
      show ?thesis using n(2)[OF t] h True by (simp add: drawNonzero_zero)
    qed
    ultimately show ?thesis by blast
  qed
qed

lemma drawNonzero_reads: "readsPrefix (drawNonzero u)"
proof (rule readsPrefixI)
  fix rnd r rnd' assume "drawNonzero u rnd = Some (r, rnd')"
  from drawNonzero_reads_aux[OF this]
  show "\<exists>n. rnd' = sdrop n rnd \<and> (\<forall>rnd2. stake n rnd2 = stake n rnd \<longrightarrow> drawNonzero u rnd2 = Some (r, sdrop n rnd2))"
    by simp
qed

lemma randomNormal_reads: "readsPrefix randomNormal"
proof -
  have "readsPrefix (\<lambda>rnd. case drawNonzero 0 rnd of None \<Rightarrow> None
      | Some (u, rnd1) \<Rightarrow> (case drawNonzero 0 rnd1 of None \<Rightarrow> None
           | Some (v, rnd2) \<Rightarrow> Some (sqrt (- 2.0 * ln u) * cos (2.0 * pi * v), rnd2)))"
    by (intro readsPrefix_bind drawNonzero_reads readsPrefix_return)
  then show ?thesis by (simp add: randomNormal_def[abs_def])
qed


lemma readsPrefix_eq: "readsPrefix f \<Longrightarrow> (\<And>rnd. g rnd = f rnd) \<Longrightarrow> readsPrefix g"
proof -
  assume a: "readsPrefix f" and "\<And>rnd. g rnd = f rnd"
  then have "g = f" by (intro ext)
  with a show ?thesis by simp
qed

lemma readsPrefix_foldOpt:
  assumes "\<And>x d. readsPrefix (\<lambda>rnd. f x (d, rnd))"
  shows "readsPrefix (\<lambda>rnd. foldOpt f xs (d, rnd))"
proof (induction xs arbitrary: d)
  case Nil
  show ?case by (simp add: readsPrefix_return)
next
  case (Cons x xs)
  have "readsPrefix (\<lambda>rnd. case f x (d, rnd) of None \<Rightarrow> None
      | Some (d', rnd1) \<Rightarrow> foldOpt f xs (d', rnd1))"
    by (rule readsPrefix_bind[OF assms]) (rule Cons.IH)
  moreover have "foldOpt f (x # xs) (d, rnd) = (case f x (d, rnd) of None \<Rightarrow> None
      | Some (d', rnd1) \<Rightarrow> foldOpt f xs (d', rnd1))" for rnd
    by (simp split: option.splits)
  ultimately show ?case by simp
qed

lemma noiseChannel_reads: "readsPrefix (\<lambda>rnd. noiseChannel ns sm base c (d, rnd))"
proof -
  have "readsPrefix (\<lambda>rnd. case randomNormal rnd of None \<Rightarrow> None
     | Some (n, rnd1) \<Rightarrow> Some (d[base + c := clamp (d ! (base + c) + n * ns * (0.5 + sm * 0.5)) 0 255], rnd1))"
    by (intro readsPrefix_bind randomNormal_reads readsPrefix_return)
  then show ?thesis unfolding noiseChannel_def Let_def prod.case .
qed

lemma noisePixel_reads: "readsPrefix (\<lambda>rnd. noisePixel ns w y x (d, rnd))"
  unfolding noisePixel_def Let_def fst_conv
  by (rule readsPrefix_foldOpt) (rule noiseChannel_reads)

lemma addDigitalNoise_reads: "readsPrefix (addDigitalNoise d w h inten)"
proof -
  have "readsPrefix (\<lambda>rnd. foldOpt (\<lambda>y. foldOpt (noisePixel (12 * inten) w y) [0..<w]) [0..<h] (d, rnd))"
    by (intro readsPrefix_foldOpt noisePixel_reads)
  then show ?thesis by (simp add: addDigitalNoise_def[abs_def] Let_def)
qed

lemma readsPrefix_map:
  assumes "readsPrefix f"
  shows "readsPrefix (\<lambda>rnd. case f rnd of None \<Rightarrow> None | Some (r, rnd1) \<Rightarrow> Some (g r, rnd1))"
  by (intro readsPrefix_bind assms readsPrefix_return)

lemma steps7to9_reads: "readsPrefix (steps7to9_noiseBarrel sk inten img)"
proof (cases "imageToPixels sk img")
  case (Inl e)
  then show ?thesis by (simp add: steps7to9_noiseBarrel_def[abs_def] readsPrefix_return)
next
  case (Inr px)
  have "readsPrefix (\<lambda>rnd. case addDigitalNoise (bufData px) (bufWidth px) (bufHeight px) inten rnd of
      None \<Rightarrow> None
    | Some (noisy, rnd1) \<Rightarrow> Some (pixelsToImage sk
         (applyBarrelDistortion noisy (bufWidth px) (bufHeight px) inten) (bufWidth px) (bufHeight px), rnd1))"
    by (rule readsPrefix_map[OF addDigitalNoise_reads])
  then show ?thesis
    by (rule readsPrefix_eq)
       (simp add: steps7to9_noiseBarrel_def Inr Let_def split: option.splits)
qed

lemma generateDate_reads: "readsPrefix (\<lambda>rnd. Some (generateDate rnd))"
  unfolding readsPrefix_def
proof (intro allI impI)
  fix rnd rnd' :: "real stream" and r
  assume a: "Some (generateDate rnd) = Some (r, rnd')"
  have e: "generateDate t = (fst (generateDate t), sdrop 3 t)" for t
    by (simp add: generateDate_def Math_random_def Let_def numeral_3_eq_3)
  have p: "fst (generateDate t) = fst (generateDate rnd)" if "stake 3 t = stake 3 rnd" for t
    using that by (simp add: generateDate_def Math_random_def Let_def numeral_3_eq_3)
  have "rnd' = sdrop 3 rnd \<and> (\<forall>rnd2. stake 3 rnd2 = stake 3 rnd \<longrightarrow>
          Some (generateDate rnd2) = Some (r, sdrop 3 rnd2))"
    using a e[of rnd] p by (metis e fst_conv option.inject snd_conv)
  then show "\<exists>n. rnd' = sdrop n rnd \<and> (\<forall>rnd2. stake n rnd2 = stake n rnd \<longrightarrow>
          Some (generateDate rnd2) = Some (r, sdrop n rnd2))"
    by (rule exI)
qed

lemma addDateStampImage_reads: "readsPrefix (\<lambda>rnd. Some (addDateStampImage sk img t rnd))"
proof (cases "makeSurface sk (int (width img)) (int (height img))")
  case (Inl e)
  then show ?thesis by (simp add: addDateStampImage_def Let_def readsPrefix_return)
next
  case (Inr s0)
  show ?thesis
  proof (cases t)
    case (Some tx)
    then show ?thesis by (simp add: addDateStampImage_def Let_def Inr readsPrefix_return)
  next
    case None
    have r: "readsPrefix (\<lambda>rnd. case Some (generateDate rnd) of None \<Rightarrow> None
        | Some (tx, rnd1) \<Rightarrow> Some (addDateStampImage sk img (Some tx) rnd1))"
      by (rule readsPrefix_bind[OF generateDate_reads])
         (simp add: addDateStampImage_def Let_def Inr readsPrefix_return)
    have e: "addDateStampImage sk img None rnd
        = (case generateDate rnd of (tx, rnd1) \<Rightarrow> addDateStampImage sk img (Some tx) rnd1)" for rnd
      by (simp add: addDateStampImage_def Let_def Inr split: prod.splits)
    show ?thesis unfolding None
      by (rule readsPrefix_eq[OF r]) (simp add: e split: prod.splits)
  qed
qed


lemma pipeline_reads: "readsPrefix (\<lambda>rnd. applyY2KCameraEffect sk rnd img options)"
proof -
  define inten where "inten = (case intensity options of Some i \<Rightarrow> i | None \<Rightarrow> 1.0)"
  define addStamp where "addStamp = (case addDateStamp options of Some b \<Rightarrow> b | None \<Rightarrow> True)"
  define rest where "rest = (\<lambda>r rnd1. case r of
       Inl e \<Rightarrow> Some (Inl e, rnd1)
     | Inr i9 \<Rightarrow>
         (case drawImageToSurface sk (applyJpegArtifacts sk i9 inten)
                 (int (width img)) (int (height img)) None of
            Inl e \<Rightarrow> Some (Inl e, rnd1)
          | Inr i10 \<Rightarrow> if addStamp then Some (addDateStampImage sk i10 (dateStampText options) rnd1)
                       else Some (Inr i10, rnd1)))"
  have rest: "readsPrefix (rest r)" for r
  proof (cases r)
    case (Inl e)
    then show ?thesis by (simp add: rest_def readsPrefix_return)
  next
    case (Inr i9)
    show ?thesis
    proof (cases "drawImageToSurface sk (applyJpegArtifacts sk i9 inten)
                 (int (width img)) (int (height img)) None")
      case (Inl e)
      then show ?thesis by (simp add: rest_def Inr readsPrefix_return)
    next
      case i10: (Inr i10)
      show ?thesis
        by (cases addStamp) (simp_all add: rest_def Inr i10 readsPrefix_return addDateStampImage_reads)
    qed
  qed
  show ?thesis
  proof (cases "stepsBeforeNoise sk inten img")
    case (Inl e)
    show ?thesis
      by (rule readsPrefix_eq[OF readsPrefix_return[of "Inl e"]])
         (simp add: applyY2KCameraEffect_def Let_def inten_def[symmetric] Inl)
  next
    case (Inr i6)
    have "readsPrefix (\<lambda>rnd. case steps7to9_noiseBarrel sk inten i6 rnd of None \<Rightarrow> None
        | Some (r, rnd1) \<Rightarrow> rest r rnd1)"
      by (rule readsPrefix_bind[OF steps7to9_reads rest])
    then show ?thesis
      by (rule readsPrefix_eq)
         (simp add: applyY2KCameraEffect_def Let_def inten_def[symmetric] addStamp_def[symmetric]
            Inr rest_def split: option.splits sum.splits prod.splits)
  qed
qed

text \<open>
  C5, as amended. The noise and the generated date draw from \<^verbatim>\<open>Math.random\<close>, the ambient
  source of the runtime: no function of the module takes a random source or a seed. When
  the pipeline returns, it has consumed a number \<open>n\<close> of values of the source, and every
  invocation with the same Skia, image and options whose source returns the same first
  \<open>n\<close> values returns the same result and consumes the same \<open>n\<close> values.
\<close>

theorem output_determined_by_draws:
  assumes "applyY2KCameraEffect sk rnd img options = Some (res, rnd')"
  shows "\<exists>n. rnd' = sdrop n rnd
     \<and> (\<forall>rnd2. stake n rnd2 = stake n rnd \<longrightarrow>
           applyY2KCameraEffect sk rnd2 img options = Some (res, sdrop n rnd2))"
  using readsPrefixD[OF pipeline_reads assms] .


theorem output_determined_by_draws_witness:
  "\<exists>res rnd' n. applyY2KCameraEffect flatSkia (sconst (1 / 2))
       \<lparr>width = 2, height = 1, pixels = [255, 255, 255, 255, 0, 0, 0, 255]\<rparr>
       \<lparr>intensity = Some 1, addDateStamp = Some True, dateStampText = None,
        outputQuality = None\<rparr> = Some (res, rnd')
     \<and> rnd' = sdrop n (sconst (1 / 2))"
proof -
  have small: "width \<lparr>width = 2, height = 1, pixels = [255, 255, 255, 255, 0, 0, 0, 255]\<rparr>
      * height \<lparr>width = 2, height = 1, pixels = [255, 255, 255, 255, 0, 0, 0, 255 :: byte]\<rparr>
      \<le> 2000000"
    by simp
  have nz: "\<forall>x\<in>sset (sconst (1 / 2 :: real)). x \<noteq> 0"
    by simp
  have ok: "\<forall>w h. Surface_Make flatSkia w h \<noteq> None" "\<forall>i. readPixelsOk flatSkia i"
    "\<forall>w h b. MakeImageOk flatSkia w h b"
    by (simp_all add: flatSkia_def)
  obtain out rnd' where r: "applyY2KCameraEffect flatSkia (sconst (1 / 2))
       \<lparr>width = 2, height = 1, pixels = [255, 255, 255, 255, 0, 0, 0, 255]\<rparr>
       \<lparr>intensity = Some 1, addDateStamp = Some True, dateStampText = None,
        outputQuality = None\<rparr> = Some (Inr out, rnd')"
    using pipeline_returns[OF ok small nz] by blast
  from output_determined_by_draws[OF r] r show ?thesis by blast
qed

lemma normal_quiet: "randomNormal (1 / 2 ## 1 / 4 ## rnd) = Some (0, rnd)"
  by (simp add: randomNormal_head)

lemma normal_loud: "randomNormal (sconst (1 / 2)) = Some (- sqrt (2 * ln 2), sconst (1 / 2))"
  by (simp add: randomNormal_head ln_div)

lemma luminance_gray: "luminance [100, 100, 100, 255] 0 0 (Suc 0) = 100"
  by (simp add: luminance_def)

lemma noiseChannel_constant:
  assumes "randomNormal rnd = Some (- t, rnd)"
  shows "noiseChannel ns sm b k (d, rnd)
     = Some (d[b + k := clamp (d ! (b + k) + - t * ns * (0.5 + sm * 0.5)) 0 255], rnd)"
  by (simp add: noiseChannel_def assms Let_def)

lemma noisePixel_constant:
  assumes "randomNormal rnd = Some (- t, rnd)"
  shows "noisePixel ns w y x (d, rnd)
     = Some (let b = (y * w + x) * 4;
                 a = - t * ns * (0.5 + (1 - luminance d x y w / 255) * 0.5);
                 d1 = d[b := clamp (d ! b + a) 0 255];
                 d2 = d1[b + 1 := clamp (d1 ! (b + 1) + a) 0 255]
             in d2[b + 2 := clamp (d2 ! (b + 2) + a) 0 255], rnd)"
  by (simp add: noisePixel_def upt3 noiseChannel_constant[OF assms] Let_def)


lemma noise_constant_draw:
  assumes "randomNormal rnd = Some (- t, rnd)" "0 \<le> t" "t < 2"
  shows "addDigitalNoise [100, 100, 100, 255] 1 1 1 rnd
   = Some ([100 - t * (164 / 17), 100 - t * (164 / 17), 100 - t * (164 / 17), 255], rnd)"
proof -
  have "addDigitalNoise [100, 100, 100, 255] 1 1 1 rnd
      = noisePixel (12 * 1) 1 0 0 ([100, 100, 100, 255], rnd)"
    by (simp add: addDigitalNoise_def Let_def split: option.splits)
  also have "\<dots> = Some ([100 - t * (164 / 17), 100 - t * (164 / 17), 100 - t * (164 / 17), 255], rnd)"
    unfolding noisePixel_constant[OF assms(1)]
    using assms(2,3) by (simp add: luminance_def clamp_def Let_def)
  finally show ?thesis .
qed

lemma noise_quiet:
  "addDigitalNoise [100, 100, 100, 255] 1 1 1
     (1 / 2 ## 1 / 4 ## 1 / 2 ## 1 / 4 ## 1 / 2 ## 1 / 4 ## sconst (1 / 2))
   = Some ([100, 100, 100, 255], sconst (1 / 2))"
  by (simp add: addDigitalNoise_def noisePixel_def noiseChannel_def luminance_gray upt3
      normal_quiet clamp_def Let_def)

lemma sqrt_ln2_bounds: "1 \<le> sqrt (2 * ln 2)" "sqrt (2 * ln 2) < 2"
proof -
  have "ln (1 / 2) \<le> 1 / 2 - (1::real)" by (rule ln_le_minus_one) simp
  then have "1 / 2 \<le> ln (2::real)" by (simp add: ln_div)
  then have "1 \<le> 2 * ln (2::real)" by simp
  then show "1 \<le> sqrt (2 * ln 2)" by simp
  have "2 * ln (2::real) < 2\<^sup>2" using ln_2_less_1 by simp
  then show "sqrt (2 * ln 2) < 2" by (intro real_less_lsqrt) simp_all
qed


lemma noise_loud:
  "addDigitalNoise [100, 100, 100, 255] 1 1 1 (sconst (1 / 2))
   = Some ([100 - sqrt (2 * ln 2) * (164 / 17), 100 - sqrt (2 * ln 2) * (164 / 17),
            100 - sqrt (2 * ln 2) * (164 / 17), 255], sconst (1 / 2))"
proof (rule noise_constant_draw[OF normal_loud])
  show "0 \<le> sqrt (2 * ln 2)" using sqrt_ln2_bounds(1) by linarith
  show "sqrt (2 * ln 2) < 2" by (rule sqrt_ln2_bounds(2))
qed

lemma noisy_byte: "unat (toUint8 (100 - sqrt (2 * ln 2) * (164 / 17))) \<le> 90"
proof -
  have "100 - sqrt (2 * ln 2) * (164 / 17) \<le> 100 - 164 / 17"
    using sqrt_ln2_bounds(1) by simp
  then have "round (100 - sqrt (2 * ln 2) * (164 / 17)) \<le> round (100 - 164 / 17 :: real)"
    by (rule round_mono)
  also have "round (100 - 164 / 17 :: real) = 90"
    by (rule round_unique) simp_all
  finally have u: "round (100 - sqrt (2 * ln 2) * (164 / 17)) \<le> 90" .
  have "100 - 2 * (164 / 17) \<le> 100 - sqrt (2 * ln 2) * (164 / 17)"
    using sqrt_ln2_bounds(2) by simp
  then have "round (100 - 2 * (164 / 17) :: real) \<le> round (100 - sqrt (2 * ln 2) * (164 / 17))"
    by (rule round_mono)
  moreover have "round (100 - 2 * (164 / 17) :: real) = 81"
    by (rule round_unique) simp_all
  ultimately have l: "81 \<le> round (100 - sqrt (2 * ln 2) * (164 / 17))" by simp
  define r where "r = round (100 - sqrt (2 * ln 2) * (164 / 17))"
  have m: "max 0 (min 255 r) = r" using l u unfolding r_def[symmetric] by simp
  have "uint (word_of_int r :: byte) = r"
    using l u unfolding r_def[symmetric]
    by (simp add: uint_word_of_int take_bit_int_eq_self)
  then have "unat (word_of_int r :: byte) = nat r"
    by (simp add: unat_eq_nat_uint)
  then show ?thesis
    using u unfolding toUint8_def r_def[symmetric] m by simp
qed

text \<open>
  C5, as stated, fails. Two invocations of the noise stage, one after the other, on the
  same buffer with the same intensity: \<^verbatim>\<open>Math.random\<close> returns 1/2, 1/4, 1/2, 1/4, 1/2,
  1/4 during the first, which leaves the buffer at 100, and 1/2 from then on, so that
  the second lowers every colour channel to a value whose byte is at most 90. Nothing
  that the caller passes can make the second invocation repeat the first.
\<close>

theorem ambient_random_counterexample:
  "addDigitalNoise [100, 100, 100, 255] 1 1 1
     (1 / 2 ## 1 / 4 ## 1 / 2 ## 1 / 4 ## 1 / 2 ## 1 / 4 ## sconst (1 / 2))
   = Some ([100, 100, 100, 255], sconst (1 / 2))
   \<and> addDigitalNoise [100, 100, 100, 255] 1 1 1 (sconst (1 / 2))
   = Some ([100 - sqrt (2 * ln 2) * (164 / 17), 100 - sqrt (2 * ln 2) * (164 / 17),
            100 - sqrt (2 * ln 2) * (164 / 17), 255], sconst (1 / 2))
   \<and> unat (toUint8 100) = 100
   \<and> unat (toUint8 (100 - sqrt (2 * ln 2) * (164 / 17))) \<le> 90"
proof (intro conjI)
  show "unat (toUint8 100) = 100" by (simp add: toUint8_def)
qed (rule noise_quiet noise_loud noisy_byte)+

section \<open>The bloom stage\<close>
































































end
